theory Spec2Isabelle
  imports Complex_Main
begin

section \<open>JSON values and JavaScript truthiness\<close>

text \<open>
  Values exchanged with the Neuro API are what \<^verbatim>\<open>JSON.parse\<close> returns. An object is kept
  as the list of its own properties; a property that is absent reads as
  \<^verbatim>\<open>undefined\<close>, which is \<open>None\<close> here.
\<close>

datatype json =
    JNull
  | JBool bool
  | JNum rat
  | JStr string
  | JArr "json list"
  | JObj "(string \<times> json) list"

text \<open>\<^verbatim>\<open>!v\<close> is false exactly for the truthy values.\<close>

fun truthy :: "json \<Rightarrow> bool" where
  "truthy JNull = False"
| "truthy (JBool b) = b"
| "truthy (JNum n) = (n \<noteq> 0)"
| "truthy (JStr s) = (s \<noteq> [])"
| "truthy (JArr _) = True"
| "truthy (JObj _) = True"

fun truthy_opt :: "json option \<Rightarrow> bool" where
  "truthy_opt None = False"
| "truthy_opt (Some v) = truthy v"

text \<open>
  \<^verbatim>\<open>v.k\<close> for a value \<open>v\<close> that is neither \<^verbatim>\<open>null\<close> nor \<^verbatim>\<open>undefined\<close>. Only the keys
  \<^verbatim>\<open>command\<close>, \<^verbatim>\<open>data\<close> and \<^verbatim>\<open>id\<close> are read by the code below; no primitive or array
  has a property of these names, so they read as \<^verbatim>\<open>undefined\<close> there.
\<close>

fun field :: "string \<Rightarrow> json \<Rightarrow> json option" where
  "field k (JObj kvs) = map_of kvs k"
| "field k _ = None"

text \<open>\<^verbatim>\<open>a || b\<close> on strings that may be absent: the empty string is falsy.\<close>

fun or_default :: "string option \<Rightarrow> string \<Rightarrow> string" where
  "or_default None d = d"
| "or_default (Some s) d = (if s = [] then d else s)"

section \<open>The popup log cache (PopupManager.addLogEntry)\<close>

text \<open>
  \<^verbatim>\<open>xs.slice(start)\<close>: a negative start counts from the end and is clamped at the
  beginning of the array; a start beyond the end gives the empty array.
\<close>

definition slice_from :: "int \<Rightarrow> 'a list \<Rightarrow> 'a list" where
  "slice_from start xs =
     (let len = int (length xs);
          k = (if start < 0 then max (len + start) 0 else min start len)
      in drop (nat k) xs)"

record log_data =
  ld_level :: "string option"
  ld_message :: string
  ld_data :: "json option"
  ld_source :: "string option"

record log_entry =
  le_timestamp :: string
  le_level :: string
  le_message :: string
  le_data :: "json option"
  le_source :: string

datatype popup_message =
    StatusUpdate
  | NewLog log_entry
  | CachedLog log_entry

record popup_manager =
  logCache :: "log_entry list"
  maxCacheSize :: nat
  isPopupOpen :: bool
  broadcasts :: "popup_message list"

text \<open>The constructor: an empty cache of at most 200 entries, popup closed.\<close>

definition new_popup_manager :: popup_manager where
  "new_popup_manager =
     \<lparr>logCache = [], maxCacheSize = 200, isPopupOpen = False, broadcasts = []\<rparr>"

text \<open>
  \<open>ts\<close> is what \<^verbatim>\<open>new Date().toISOString()\<close> returns at the call. The class in
  popup-manager.js and the object literal in background-main.js have the same body; they
  differ only in how \<^verbatim>\<open>broadcastToPopup\<close> delivers the message.
\<close>

definition mk_log_entry :: "string \<Rightarrow> log_data \<Rightarrow> log_entry" where
  "mk_log_entry ts ld =
     \<lparr>le_timestamp = ts,
      le_level = or_default (ld_level ld) ''info'',
      le_message = ld_message ld,
      le_data = ld_data ld,
      le_source = or_default (ld_source ld) ''system''\<rparr>"

definition addLogEntry :: "string \<Rightarrow> log_data \<Rightarrow> popup_manager \<Rightarrow> log_entry \<times> popup_manager" where
  "addLogEntry ts ld pm =
     (let logEntry = mk_log_entry ts ld;
          pm1 = pm\<lparr>logCache := logCache pm @ [logEntry]\<rparr>;
          pm2 = (if length (logCache pm1) > maxCacheSize pm1
                 then pm1\<lparr>logCache := slice_from (- int (maxCacheSize pm1)) (logCache pm1)\<rparr>
                 else pm1);
          pm3 = (if isPopupOpen pm2
                 then pm2\<lparr>broadcasts := broadcasts pm2 @ [NewLog logEntry]\<rparr>
                 else pm2)
      in (logEntry, pm3))"

text \<open>A run of calls, each with the timestamp of its moment.\<close>

fun addLogEntries :: "(string \<times> log_data) list \<Rightarrow> popup_manager \<Rightarrow> popup_manager" where
  "addLogEntries [] pm = pm"
| "addLogEntries ((ts, ld) # rest) pm = addLogEntries rest (snd (addLogEntry ts ld pm))"

section \<open>The connection to the Neuro API (NeuroConnection)\<close>

subsection \<open>Configuration (config.js)\<close>

definition GAME_NAME :: string where "GAME_NAME = ''Neuro-Duolingo Game''"
definition RECONNECT_INTERVAL :: rat where "RECONNECT_INTERVAL = 10000"
definition MAX_RECONNECT_INTERVAL :: rat where "MAX_RECONNECT_INTERVAL = 60000"
definition MAX_RECONNECT_ATTEMPTS :: int where "MAX_RECONNECT_ATTEMPTS = 5"
definition HEARTBEAT_INTERVAL :: int where "HEARTBEAT_INTERVAL = 15000"
definition NOTIFICATION_RECONNECT :: string where "NOTIFICATION_RECONNECT = ''neuro_reconnect''"
definition NOTIFICATION_DISCONNECT :: string where "NOTIFICATION_DISCONNECT = ''neuro_disconnect''"

subsection \<open>Frames, effects and the state\<close>

text \<open>
  A frame is the object handed to \<^verbatim>\<open>JSON.stringify\<close> before \<^verbatim>\<open>ws.send\<close>; an absent
  property is \<open>None\<close>.
\<close>

record frame =
  command :: "string option"
  game :: "string option"
  data :: "json option"

datatype ready_state = CONNECTING | OPEN | CLOSING | CLOSED

datatype js_error = TypeError | SyntaxError | OtherError

datatype log_level = Info | Warn | Error | Debug

text \<open>
  What the code does to the world outside the object, in the order it does it. Sockets,
  timeouts and intervals are named by the handles the platform gives out. Log texts are
  the source's literals, without the values interpolated into them.
\<close>

datatype effect =
    Log log_level string
  | PopupLogNeuroConnection bool
  | PopupLog log_level string
  | PopupLogDuolingoActivity bool
  | BroadcastConnectionStatus bool
  | Notification string
  | WsSend nat frame
  | WsClose nat
  | SetTimeout nat rat
  | ClearTimeout nat
  | SetInterval nat int
  | ClearInterval nat
  | DispatchNeuroMessage json
  | TabsSendMessage nat json

text \<open>
  The fields of the NeuroConnection object, followed by the part of the platform it acts
  on: the readyState of every socket created so far (socket \<open>i\<close> is the \<open>i\<close>-th one
  created), the timeouts that are pending, the intervals that are running, the next
  timer handle (timeouts and intervals share one counter of positive integers, so every
  handle is truthy and \<^verbatim>\<open>if (this.reconnectTimer)\<close> tests for \<^verbatim>\<open>null\<close>), and the trace of
  effects so far. \<open>popupManager\<close> says whether the constructor was given one.
\<close>

record world =
  ws :: "nat option"
  isConnected :: bool
  lastMessageTime :: "int option"
  reconnectAttempts :: int
  reconnectTimer :: "nat option"
  connectionLost :: bool
  heartbeatInterval :: "nat option"
  popupManager :: bool
  pendingMessage :: "json option"
  sockets :: "ready_state list"
  timeouts :: "nat list"
  intervals :: "nat list"
  nextHandle :: nat
  trace :: "effect list"

definition new_connection :: "bool \<Rightarrow> world" where
  "new_connection pm =
     \<lparr>ws = None, isConnected = False, lastMessageTime = None, reconnectAttempts = 0,
      reconnectTimer = None, connectionLost = False, heartbeatInterval = None,
      popupManager = pm, pendingMessage = None,
      sockets = [], timeouts = [], intervals = [], nextHandle = 1, trace = []\<rparr>"

definition emit :: "effect \<Rightarrow> world \<Rightarrow> world" where
  "emit e w = w\<lparr>trace := trace w @ [e]\<rparr>"

definition readyState :: "world \<Rightarrow> nat \<Rightarrow> ready_state" where
  "readyState w i = (if i < length (sockets w) then sockets w ! i else CLOSED)"

text \<open>The effects a step has added to the trace.\<close>

definition emitted :: "world \<Rightarrow> world \<Rightarrow> effect list" where
  "emitted w w' = drop (length (trace w)) (trace w')"

subsection \<open>Timers of the platform\<close>

definition clearTimeout :: "nat \<Rightarrow> world \<Rightarrow> world" where
  "clearTimeout t w = emit (ClearTimeout t) (w\<lparr>timeouts := removeAll t (timeouts w)\<rparr>)"

definition clearInterval :: "nat \<Rightarrow> world \<Rightarrow> world" where
  "clearInterval t w = emit (ClearInterval t) (w\<lparr>intervals := removeAll t (intervals w)\<rparr>)"

subsection \<open>The methods\<close>

text \<open>
  The retry delay for the count \<open>n\<close> that \<^verbatim>\<open>reconnectAttempts\<close> has after its increment:
  \<^verbatim>\<open>Math.min(MAX_RECONNECT_INTERVAL, RECONNECT_INTERVAL * Math.pow(1.5, Math.min(n - 1, 8)))\<close>.
  Every value involved is a multiple of \<open>1/256\<close> below \<open>2^53\<close>, which a double holds
  exactly, so the rationals compute what the code computes.
\<close>

definition reconnect_delay :: "int \<Rightarrow> rat" where
  "reconnect_delay n =
     min MAX_RECONNECT_INTERVAL (RECONNECT_INTERVAL * ((3 / 2) powi (min (n - 1) 8)))"

definition scheduleReconnect :: "world \<Rightarrow> world" where
  "scheduleReconnect w =
     (let w1 = (case reconnectTimer w of None \<Rightarrow> w | Some t \<Rightarrow> clearTimeout t w);
          w2 = w1\<lparr>reconnectAttempts := reconnectAttempts w1 + 1\<rparr>;
          delay = reconnect_delay (reconnectAttempts w2);
          w3 = emit (Log Info ''Will attempt to reconnect'') w2;
          h = nextHandle w3
      in emit (SetTimeout h delay)
           (w3\<lparr>reconnectTimer := Some h, timeouts := timeouts w3 @ [h],
                nextHandle := Suc h\<rparr>))"

text \<open>
  \<^verbatim>\<open>connect()\<close>; \<open>throws\<close> says whether \<^verbatim>\<open>new WebSocket(url)\<close> throws. A socket that is
  created starts CONNECTING and has the four handlers of this object.
\<close>

definition connect :: "bool \<Rightarrow> world \<Rightarrow> world" where
  "connect throws w =
     (let w1 = emit (Log Info ''Attempting to connect to Neuro API...'') w
      in if throws
         then scheduleReconnect (emit (Log Error ''Error connecting to WebSocket:'') w1)
         else w1\<lparr>ws := Some (length (sockets w1)), sockets := sockets w1 @ [CONNECTING]\<rparr>)"

definition sendStartup :: "world \<Rightarrow> world" where
  "sendStartup w =
     (case ws w of
        None \<Rightarrow> emit (Log Warn ''Cannot send startup message - WebSocket not ready'') w
      | Some i \<Rightarrow>
          if readyState w i = OPEN
          then emit (Log Info ''Sent startup message to Neuro'')
                 (emit (WsSend i \<lparr>command = Some ''startup'', game = Some GAME_NAME,
                                   data = None\<rparr>) w)
          else emit (Log Warn ''Cannot send startup message - WebSocket not ready'') w)"

definition stopHeartbeat :: "world \<Rightarrow> world" where
  "stopHeartbeat w =
     (case heartbeatInterval w of
        None \<Rightarrow> w
      | Some h \<Rightarrow> (clearInterval h w)\<lparr>heartbeatInterval := None\<rparr>)"

definition startHeartbeat :: "world \<Rightarrow> world" where
  "startHeartbeat w =
     (let w1 = stopHeartbeat w;
          h = nextHandle w1
      in emit (SetInterval h HEARTBEAT_INTERVAL)
           (w1\<lparr>heartbeatInterval := Some h, intervals := intervals w1 @ [h],
                nextHandle := Suc h\<rparr>))"

text \<open>One tick of the interval that \<^verbatim>\<open>startHeartbeat\<close> installs, at time \<open>now\<close>.\<close>

definition heartbeatTick :: "int \<Rightarrow> world \<Rightarrow> world" where
  "heartbeatTick now w =
     (case ws w of
        None \<Rightarrow> w
      | Some i \<Rightarrow>
          if isConnected w \<and> readyState w i = OPEN
          then (let timeSinceLastMessage =
                      (case lastMessageTime w of
                         None \<Rightarrow> 0
                       | Some t \<Rightarrow> if t = 0 then 0 else now - t)
                in if timeSinceLastMessage > HEARTBEAT_INTERVAL
                   then emit (Log Debug ''Sent ping to keep WebSocket connection alive'')
                          (emit (WsSend i \<lparr>command = Some ''ping'', game = Some GAME_NAME,
                                            data = None\<rparr>) w)
                   else w)
          else w)"

definition showReconnectionNotification :: "world \<Rightarrow> world" where
  "showReconnectionNotification w = emit (Notification NOTIFICATION_RECONNECT) w"

definition showDisconnectionNotification :: "world \<Rightarrow> world" where
  "showDisconnectionNotification w = emit (Notification NOTIFICATION_DISCONNECT) w"

definition handleOpen :: "int \<Rightarrow> world \<Rightarrow> world" where
  "handleOpen now w =
     (let w1 = w\<lparr>isConnected := True, reconnectAttempts := 0, connectionLost := False,
                 lastMessageTime := Some now\<rparr>;
          w2 = emit (Log Info ''Connected to Neuro API'') w1;
          w3 = (if popupManager w2 then emit (PopupLogNeuroConnection True) w2 else w2);
          w4 = sendStartup w3;
          w5 = emit (BroadcastConnectionStatus True) w4;
          w6 = (if reconnectAttempts w5 > 1 then showReconnectionNotification w5 else w5)
      in startHeartbeat w6)"

definition handleClose :: "world \<Rightarrow> world" where
  "handleClose w =
     (let wasConnected = isConnected w;
          w1 = stopHeartbeat (w\<lparr>isConnected := False\<rparr>);
          w2 = (if wasConnected
                then (let w3 = emit (Log Warn ''Disconnected from Neuro API'') w1;
                          w4 = (if popupManager w3
                                then emit (PopupLogNeuroConnection False) w3 else w3)
                      in if \<not> connectionLost w4
                            \<and> reconnectAttempts w4 \<ge> MAX_RECONNECT_ATTEMPTS
                         then showDisconnectionNotification
                                (emit (BroadcastConnectionStatus False)
                                   (w4\<lparr>connectionLost := True\<rparr>))
                         else if wasConnected
                         then emit (BroadcastConnectionStatus False) w4
                         else w4)
                else w1)
      in scheduleReconnect w2)"

definition handleError :: "world \<Rightarrow> world" where
  "handleError w =
     (let w1 = emit (Log Error ''WebSocket error:'') w
      in if popupManager w1 then emit (PopupLog Error ''WebSocket error'') w1 else w1)"

text \<open>
  \<^verbatim>\<open>handleMessage(event)\<close> at time \<open>now\<close>; \<open>parsed\<close> is what \<^verbatim>\<open>JSON.parse(event.data)\<close>
  returns, \<open>None\<close> when it throws. Reading \<^verbatim>\<open>msg.command\<close> of \<^verbatim>\<open>null\<close> throws as well;
  both are caught and logged.
\<close>

definition handleMessage :: "int \<Rightarrow> json option \<Rightarrow> world \<Rightarrow> world" where
  "handleMessage now parsed w =
     (let w1 = w\<lparr>lastMessageTime := Some now\<rparr>
      in case parsed of
           None \<Rightarrow> emit (Log Error ''Error processing WebSocket message:'') w1
         | Some JNull \<Rightarrow> emit (Log Error ''Error processing WebSocket message:'') w1
         | Some msg \<Rightarrow>
             emit (DispatchNeuroMessage msg)
               ((emit (Log Info ''Received command from Neuro'') w1)
                  \<lparr>pendingMessage := Some msg\<rparr>))"

text \<open>
  \<^verbatim>\<open>sendToNeuro(msg)\<close>: the returned boolean with the new state, or the exception that
  reaches the caller. With \<^verbatim>\<open>isConnected\<close> set and \<^verbatim>\<open>this.ws\<close> null, evaluating
  \<^verbatim>\<open>this.ws.readyState\<close> throws a TypeError.
\<close>

definition falsy_str :: "string option \<Rightarrow> bool" where
  "falsy_str s = (case s of None \<Rightarrow> True | Some t \<Rightarrow> t = [])"

definition sendToNeuro :: "frame \<Rightarrow> world \<Rightarrow> js_error + (bool \<times> world)" where
  "sendToNeuro msg w =
     (if isConnected w
      then (case ws w of
              None \<Rightarrow> Inl TypeError
            | Some i \<Rightarrow>
                if readyState w i = OPEN
                then (if falsy_str (command msg)
                      then Inr (False, emit (Log Error ''Invalid message format: missing command'') w)
                      else (let msg1 = (if falsy_str (game msg)
                                        then msg\<lparr>game := Some GAME_NAME\<rparr> else msg)
                            in Inr (True, emit (Log Info ''Sent command to Neuro'')
                                            (emit (WsSend i msg1) w))))
                else Inr (False, emit (Log Warn ''Cannot send message, not connected to Neuro API'') w))
      else Inr (False, emit (Log Warn ''Cannot send message, not connected to Neuro API'') w))"

text \<open>\<^verbatim>\<open>ws.close()\<close> on the platform: a socket that is not yet closed starts closing.\<close>

definition socket_close :: "nat \<Rightarrow> world \<Rightarrow> world" where
  "socket_close i w =
     emit (WsClose i)
       (if readyState w i = CONNECTING \<or> readyState w i = OPEN
        then w\<lparr>sockets := (sockets w)[i := CLOSING]\<rparr> else w)"

definition disconnect :: "world \<Rightarrow> world" where
  "disconnect w =
     (let w1 = stopHeartbeat w;
          w2 = (case reconnectTimer w1 of
                  None \<Rightarrow> w1
                | Some t \<Rightarrow> (clearTimeout t w1)\<lparr>reconnectTimer := None\<rparr>);
          w3 = (case ws w2 of
                  None \<Rightarrow> w2
                | Some i \<Rightarrow> (socket_close i w2)\<lparr>ws := None\<rparr>)
      in w3\<lparr>isConnected := False\<rparr>)"

subsection \<open>Events\<close>

text \<open>
  Everything runs on one event loop, so the object's life is a sequence of events, each
  handled to completion: a call of a public method, or a callback of a socket or timer.
  Every socket made by \<^verbatim>\<open>connect\<close> keeps its handlers, whether or not it is still
  \<^verbatim>\<open>this.ws\<close>. The platform delivers \<^verbatim>\<open>open\<close> only to a CONNECTING socket, \<^verbatim>\<open>message\<close>
  only to an OPEN one, \<^verbatim>\<open>close\<close> once to a socket not yet CLOSED, and runs a timer
  callback only for a handle that has not been cleared; an event that cannot happen in
  the current state changes nothing.
\<close>

datatype event =
    Connect bool
  | Disconnect
  | SendToNeuro frame
  | SocketOpen nat int
  | SocketClose nat
  | SocketError nat
  | SocketMessage nat int "json option"
  | TimeoutFires nat bool
  | IntervalFires nat int

fun step :: "event \<Rightarrow> world \<Rightarrow> world" where
  "step (Connect throws) w = connect throws w"
| "step Disconnect w = disconnect w"
| "step (SendToNeuro msg) w =
     (case sendToNeuro msg w of Inl _ \<Rightarrow> w | Inr (_, w') \<Rightarrow> w')"
| "step (SocketOpen i now) w =
     (if i < length (sockets w) \<and> sockets w ! i = CONNECTING
      then handleOpen now (w\<lparr>sockets := (sockets w)[i := OPEN]\<rparr>) else w)"
| "step (SocketClose i) w =
     (if i < length (sockets w) \<and> sockets w ! i \<noteq> CLOSED
      then handleClose (w\<lparr>sockets := (sockets w)[i := CLOSED]\<rparr>) else w)"
| "step (SocketError i) w =
     (if i < length (sockets w) \<and> sockets w ! i \<noteq> CLOSED then handleError w else w)"
| "step (SocketMessage i now parsed) w =
     (if i < length (sockets w) \<and> sockets w ! i = OPEN
      then handleMessage now parsed w else w)"
| "step (TimeoutFires t throws) w =
     (if t \<in> set (timeouts w)
      then connect throws (w\<lparr>timeouts := removeAll t (timeouts w)\<rparr>) else w)"
| "step (IntervalFires h now) w =
     (if h \<in> set (intervals w) then heartbeatTick now w else w)"

fun run :: "event list \<Rightarrow> world \<Rightarrow> world" where
  "run [] w = w"
| "run (e # es) w = run es (step e w)"

section \<open>Actions from Neuro (MessageHandler.handleAction)\<close>

text \<open>The failure result sent for the action with id \<open>i\<close>.\<close>

definition action_result :: "json \<Rightarrow> string \<Rightarrow> frame" where
  "action_result i m =
     \<lparr>command = Some ''action/result'', game = Some GAME_NAME,
      data = Some (JObj [(''id'', i), (''success'', JBool False), (''message'', JStr m)])\<rparr>"

text \<open>
  The guard \<^verbatim>\<open>!msg.data || !msg.data.id\<close>: the message passes it when \<^verbatim>\<open>msg.data\<close> is
  truthy and \<^verbatim>\<open>msg.data.id\<close> is truthy; \<open>valid_action\<close> then gives the two values.
\<close>

definition valid_action :: "json \<Rightarrow> (json \<times> json) option" where
  "valid_action msg =
     (case field ''data'' msg of
        None \<Rightarrow> None
      | Some d \<Rightarrow>
          if truthy d
          then (case field ''id'' d of
                  None \<Rightarrow> None
                | Some i \<Rightarrow> if truthy i then Some (d, i) else None)
          else None)"

text \<open>\<^verbatim>\<open>if (popupManager) popupManager.logX(m)\<close>.\<close>

definition popup_log :: "bool \<Rightarrow> log_level \<Rightarrow> string \<Rightarrow> world \<Rightarrow> world" where
  "popup_log pm l m w = (if pm then emit (PopupLog l m) w else w)"

text \<open>
  The loop over the tabs found; \<open>delivers tab\<close> says whether
  \<^verbatim>\<open>chrome.tabs.sendMessage(tab.id, ...)\<close> resolves (otherwise it rejects and the
  \<^verbatim>\<open>catch\<close> inside the loop logs it). The result is \<^verbatim>\<open>messagesSent\<close>.
\<close>

fun forward_to_tabs ::
  "bool \<Rightarrow> json \<Rightarrow> (nat \<Rightarrow> bool) \<Rightarrow> nat list \<Rightarrow> nat \<Rightarrow> world \<Rightarrow> nat \<times> world" where
  "forward_to_tabs pm d delivers [] messagesSent w = (messagesSent, w)"
| "forward_to_tabs pm d delivers (tab # tabs) messagesSent w =
     (let w1 = emit (TabsSendMessage tab
                       (JObj [(''type'', JStr ''neuro_action''), (''data'', d)])) w
      in if delivers tab
         then forward_to_tabs pm d delivers tabs (messagesSent + 1)
                (popup_log pm Info ''Sent action to tab''
                   (emit (Log Debug ''Sent action to tab'') w1))
         else forward_to_tabs pm d delivers tabs messagesSent
                (popup_log pm Warn ''Failed to send message to tab''
                   (emit (Log Warn ''Failed to send message to tab'') w1)))"

text \<open>
  The outer \<^verbatim>\<open>catch\<close> block. An exception of its own \<^verbatim>\<open>sendToNeuro\<close> call rejects the
  promise that \<^verbatim>\<open>handleAction\<close> returned.
\<close>

definition action_catch :: "bool \<Rightarrow> json \<Rightarrow> world \<Rightarrow> js_error option \<times> world" where
  "action_catch pm i w =
     (let w1 = popup_log pm Error ''Error handling action''
                 (emit (Log Error ''Error handling action:'') w)
      in case sendToNeuro (action_result i ''Internal error processing action.'') w1 of
           Inl e \<Rightarrow> (Some e, w1)
         | Inr (_, w2) \<Rightarrow> (None, w2))"

text \<open>
  \<^verbatim>\<open>handleAction(msg, connection, popupManager)\<close>, with \<open>pm\<close> saying whether a popup
  manager was passed, \<open>tabsQuery\<close> the outcome of \<^verbatim>\<open>chrome.tabs.query\<close> (the ids of the
  tabs found, or the error it rejects with) and \<open>w\<close> the connection at the moment the
  query has answered. The result is the state afterwards, with the exception, if any,
  that rejects the promise. The loop is run without other events in between.
\<close>

definition handleAction ::
  "bool \<Rightarrow> json \<Rightarrow> js_error + nat list \<Rightarrow> (nat \<Rightarrow> bool) \<Rightarrow> world
     \<Rightarrow> js_error option \<times> world" where
  "handleAction pm msg tabsQuery delivers w =
     (if msg = JNull then (Some TypeError, w)
      else case valid_action msg of
        None \<Rightarrow>
          (None, popup_log pm Error ''Invalid action message: missing data or id''
                   (emit (Log Error ''Invalid action message: missing data or id'') w))
      | Some (d, i) \<Rightarrow>
          (case tabsQuery of
             Inl e \<Rightarrow> action_catch pm i w
           | Inr tabs \<Rightarrow>
               if length tabs = 0
               then (let w1 = emit (Log Warn ''No Duolingo tabs found for action'') w;
                         w2 = (if pm
                               then emit (PopupLogDuolingoActivity False)
                                      (emit (PopupLog Warn ''No Duolingo tabs found for action'')
                                         w1)
                               else w1)
                     in case sendToNeuro
                               (action_result i ''No Duolingo tab is currently open.'') w2 of
                          Inl e \<Rightarrow> action_catch pm i w2
                        | Inr (_, w3) \<Rightarrow> (None, w3))
               else (case forward_to_tabs pm d delivers tabs 0 w of
                       (messagesSent, w1) \<Rightarrow>
                         if messagesSent = 0
                         then (let w2 = popup_log pm Error ''Failed to send action to any tabs''
                                          (emit (Log Error ''Failed to send action to any tabs'')
                                             w1)
                               in case sendToNeuro
                                         (action_result i
                                            ''Failed to communicate with Duolingo tabs.'') w2 of
                                    Inl e \<Rightarrow> action_catch pm i w2
                                  | Inr (_, w3) \<Rightarrow> (None, w3))
                         else (None, w1))))"

section \<open>The wire codec (JSON.parse and JSON.stringify)\<close>

text \<open>
  \<^verbatim>\<open>handleMessage\<close> decodes each inbound message with \<^verbatim>\<open>JSON.parse\<close> and \<^verbatim>\<open>sendToNeuro\<close>
  encodes each outbound frame with \<^verbatim>\<open>JSON.stringify\<close>. Both are the platform's functions,
  modelled here after ECMA-262. A text and a string value are the bytes of their UTF-8
  encoding, as they travel over the socket, so every character is covered. A value of
  type \<open>json\<close> stands for a JavaScript value (\<open>js_value\<close>) when its objects list
  distinct keys in the order in which JavaScript enumerates them (array indices first,
  ascending, then the other keys as inserted) and its numbers are integers of magnitude at
  most \<open>2^53\<close>. What is left out is floating point: a number with a fraction or an
  exponent, or an integer beyond \<open>2^53\<close>, is a double whose text is its shortest
  round-tripping decimal; and a lone surrogate, which no UTF-8 text holds. There
  \<open>decode\<close> answers \<open>Unsupported\<close> and \<open>encode\<close> answers \<open>None\<close>, and the model says
  nothing about the platform. \<open>-0\<close> is read as \<open>0\<close>, which is also how it is written.
\<close>

datatype 'a parsed = Parsed 'a | Malformed | Unsupported

text \<open>\<open>Malformed\<close> is the SyntaxError that \<^verbatim>\<open>JSON.parse\<close> throws.\<close>

definition dquote :: char where "dquote = CHR 0x22"
definition backslash :: char where "backslash = CHR 0x5C"

definition is_ws :: "char \<Rightarrow> bool" where
  "is_ws c = (c = CHR 0x20 \<or> c = CHR 0x09 \<or> c = CHR 0x0A \<or> c = CHR 0x0D)"

definition is_digit :: "char \<Rightarrow> bool" where
  "is_digit c = (48 \<le> (of_char c :: int) \<and> (of_char c :: int) \<le> 57)"

text \<open>Decimal digits: an integer is written without sign and without leading zeros.\<close>

definition digit_val :: "char \<Rightarrow> int" where
  "digit_val c = of_char c - 48"

definition digit_char :: "int \<Rightarrow> char" where
  "digit_char d = char_of (48 + d)"

function int_digits :: "int \<Rightarrow> string" where
  "int_digits n =
     (if n < 10 then [digit_char n] else int_digits (n div 10) @ [digit_char (n mod 10)])"
  by pat_completeness auto
termination
  by (relation "measure nat") auto

declare int_digits.simps [simp del]

definition digits_value :: "string \<Rightarrow> int" where
  "digits_value ds = foldl (\<lambda>a c. 10 * a + digit_val c) 0 ds"

definition MAX_SAFE :: int where "MAX_SAFE = 9007199254740992"

text \<open>
  A key is an array index when it is the decimal text of an integer from 0 to
  \<open>2^32 - 2\<close>. An object enumerates its array indices first, in ascending order, then
  its other keys in the order of their insertion.
\<close>

definition index_of :: "string \<Rightarrow> int option" where
  "index_of k =
     (if k \<noteq> [] \<and> list_all is_digit k \<and> (k = ''0'' \<or> hd k \<noteq> CHR ''0'')
         \<and> digits_value k \<le> 4294967294
      then Some (digits_value k) else None)"

fun key_before :: "string \<Rightarrow> string \<Rightarrow> bool" where
  "key_before k1 k2 =
     (case index_of k2 of
        None \<Rightarrow> True
      | Some b \<Rightarrow> (case index_of k1 of None \<Rightarrow> False | Some a \<Rightarrow> a < b))"

fun object_order :: "string list \<Rightarrow> bool" where
  "object_order [] = True"
| "object_order [k] = True"
| "object_order (k1 # k2 # ks) = (key_before k1 k2 \<and> object_order (k2 # ks))"

text \<open>
  QuoteJSONString: the double quote, the backslash and the control characters are
  escaped, the latter as \<^verbatim>\<open>\b \t \n \f \r\<close> or as \<^verbatim>\<open>\u00XX\<close> in lowercase; every other
  byte is written as it is.
\<close>

definition hex_digit :: "int \<Rightarrow> char" where
  "hex_digit d = (if d < 10 then char_of (48 + d) else char_of (87 + d))"

definition hex_val :: "char \<Rightarrow> int option" where
  "hex_val c =
     (let n = (of_char c :: int)
      in if 48 \<le> n \<and> n \<le> 57 then Some (n - 48)
         else if 97 \<le> n \<and> n \<le> 102 then Some (n - 87)
         else if 65 \<le> n \<and> n \<le> 70 then Some (n - 55)
         else None)"

definition escape_char :: "char \<Rightarrow> string" where
  "escape_char c =
     (if c = dquote then [backslash, dquote]
      else if c = backslash then [backslash, backslash]
      else if c = CHR 0x08 then [backslash, CHR ''b'']
      else if c = CHR 0x09 then [backslash, CHR ''t'']
      else if c = CHR 0x0A then [backslash, CHR ''n'']
      else if c = CHR 0x0C then [backslash, CHR ''f'']
      else if c = CHR 0x0D then [backslash, CHR ''r'']
      else if (of_char c :: int) < 32
      then [backslash, CHR ''u'', CHR ''0'', CHR ''0'',
            hex_digit (of_char c div 16), hex_digit (of_char c mod 16)]
      else [c])"

definition quote :: "string \<Rightarrow> string" where
  "quote s = dquote # concat (map escape_char s) @ [dquote]"

text \<open>\<^verbatim>\<open>JSON.stringify(v)\<close> without indentation: no whitespace between the tokens.\<close>

fun commas :: "string list \<Rightarrow> string" where
  "commas [] = []"
| "commas [t] = t"
| "commas (t # ts) = t @ CHR '','' # commas ts"

fun js_value :: "json \<Rightarrow> bool" where
  "js_value JNull = True"
| "js_value (JBool _) = True"
| "js_value (JNum q) = (of_int \<lfloor>q\<rfloor> = q \<and> \<bar>\<lfloor>q\<rfloor>\<bar> \<le> MAX_SAFE)"
| "js_value (JStr s) = True"
| "js_value (JArr vs) = list_all js_value vs"
| "js_value (JObj kvs) =
     (list_all (\<lambda>(k, v). js_value v) kvs \<and> distinct (map fst kvs)
      \<and> object_order (map fst kvs))"

fun render :: "json \<Rightarrow> string" where
  "render JNull = ''null''"
| "render (JBool b) = (if b then ''true'' else ''false'')"
| "render (JNum q) = (if \<lfloor>q\<rfloor> < 0 then ''-'' else []) @ int_digits \<bar>\<lfloor>q\<rfloor>\<bar>"
| "render (JStr s) = quote s"
| "render (JArr vs) = CHR ''['' # commas (map render vs) @ '']''"
| "render (JObj kvs) =
     CHR ''{'' # commas (map (\<lambda>(k, v). quote k @ CHR '':'' # render v) kvs) @ ''}''"

definition encode :: "json \<Rightarrow> string option" where
  "encode v = (if js_value v then Some (render v) else None)"

text \<open>
  \<^verbatim>\<open>JSON.parse(x)\<close>: whitespace (space, tab, line feed, carriage return) may surround
  every token. In a string, an escape \<^verbatim>\<open>\uXXXX\<close> stands for the UTF-8 bytes of its code
  point, a pair of surrogate escapes for those of the character they encode.
\<close>

fun skip_ws :: "string \<Rightarrow> string" where
  "skip_ws [] = []"
| "skip_ws (c # cs) = (if is_ws c then skip_ws cs else c # cs)"

definition unescape :: "char \<Rightarrow> char option" where
  "unescape e =
     (if e = dquote then Some dquote
      else if e = backslash then Some backslash
      else if e = CHR ''/'' then Some (CHR ''/'')
      else if e = CHR ''b'' then Some (CHR 0x08)
      else if e = CHR ''f'' then Some (CHR 0x0C)
      else if e = CHR ''n'' then Some (CHR 0x0A)
      else if e = CHR ''r'' then Some (CHR 0x0D)
      else if e = CHR ''t'' then Some (CHR 0x09)
      else None)"

definition hex4 :: "string \<Rightarrow> int option" where
  "hex4 hs =
     (case map hex_val hs of
        [Some a, Some b, Some c, Some d] \<Rightarrow> Some (((a * 16 + b) * 16 + c) * 16 + d)
      | _ \<Rightarrow> None)"

definition utf8 :: "int \<Rightarrow> string" where
  "utf8 cp =
     (if cp < 0x80 then [char_of cp]
      else if cp < 0x800 then [char_of (0xC0 + cp div 64), char_of (0x80 + cp mod 64)]
      else if cp < 0x10000
      then [char_of (0xE0 + cp div 4096), char_of (0x80 + cp div 64 mod 64),
            char_of (0x80 + cp mod 64)]
      else [char_of (0xF0 + cp div 262144), char_of (0x80 + cp div 4096 mod 64),
            char_of (0x80 + cp div 64 mod 64), char_of (0x80 + cp mod 64)])"

definition low_surrogate :: "string \<Rightarrow> int option" where
  "low_surrogate s =
     (case s of
        b # u # hs \<Rightarrow>
          if b = backslash \<and> u = CHR ''u''
          then (case hex4 hs of
                  None \<Rightarrow> None
                | Some lo \<Rightarrow> if 0xDC00 \<le> lo \<and> lo \<le> 0xDFFF then Some lo else None)
          else None
      | _ \<Rightarrow> None)"

fun prepend :: "string \<Rightarrow> (string \<times> string) parsed \<Rightarrow> (string \<times> string) parsed" where
  "prepend bs (Parsed (s, r)) = Parsed (bs @ s, r)"
| "prepend bs Malformed = Malformed"
| "prepend bs Unsupported = Unsupported"

fun parse_chars :: "string \<Rightarrow> (string \<times> string) parsed" where
  "parse_chars [] = Malformed"
| "parse_chars (c # cs) =
     (if c = dquote then Parsed ([], cs)
      else if c = backslash
      then (case cs of
              [] \<Rightarrow> Malformed
            | e # r \<Rightarrow>
                if e = CHR ''u''
                then (case hex4 (take 4 r) of
                        None \<Rightarrow> Malformed
                      | Some cp \<Rightarrow>
                          if 0xD800 \<le> cp \<and> cp \<le> 0xDBFF
                          then (case low_surrogate (take 6 (drop 4 r)) of
                                  None \<Rightarrow> Unsupported
                                | Some lo \<Rightarrow>
                                    prepend
                                      (utf8 (0x10000 + (cp - 0xD800) * 0x400 + (lo - 0xDC00)))
                                      (parse_chars (drop 10 r)))
                          else if 0xDC00 \<le> cp \<and> cp \<le> 0xDFFF then Unsupported
                          else prepend (utf8 cp) (parse_chars (drop 4 r)))
                else (case unescape e of
                        None \<Rightarrow> Malformed
                      | Some ch \<Rightarrow> prepend [ch] (parse_chars r)))
      else if (of_char c :: int) < 32 then Malformed
      else prepend [c] (parse_chars cs))"

definition literal :: "string \<Rightarrow> string \<Rightarrow> string option" where
  "literal p s = (if take (length p) s = p then Some (drop (length p) s) else None)"

text \<open>
  A number: an optional minus sign, then \<^verbatim>\<open>0\<close> or a digit from 1 to 9 followed by
  digits. A fraction or an exponent after it, or a value beyond \<open>2^53\<close>, leaves the
  model.
\<close>

definition parse_unsigned :: "string \<Rightarrow> (int \<times> string) parsed" where
  "parse_unsigned s =
     (case s of
        [] \<Rightarrow> Malformed
      | d # r \<Rightarrow>
          if \<not> is_digit d then Malformed
          else (let ds = (if d = CHR ''0'' then [d] else takeWhile is_digit s);
                    rest = drop (length ds) s;
                    n = digits_value ds
                in if (case rest of
                         [] \<Rightarrow> False
                       | c # _ \<Rightarrow> c = CHR ''.'' \<or> c = CHR ''e'' \<or> c = CHR ''E'')
                   then Unsupported
                   else if n \<le> MAX_SAFE then Parsed (n, rest)
                   else Unsupported))"

definition parse_number :: "string \<Rightarrow> (json \<times> string) parsed" where
  "parse_number s =
     (case s of
        [] \<Rightarrow> Malformed
      | c # r \<Rightarrow>
          if c = CHR ''-''
          then (case parse_unsigned r of
                  Parsed (n, rest) \<Rightarrow> Parsed (JNum (- of_int n), rest)
                | Malformed \<Rightarrow> Malformed
                | Unsupported \<Rightarrow> Unsupported)
          else (case parse_unsigned s of
                  Parsed (n, rest) \<Rightarrow> Parsed (JNum (of_int n), rest)
                | Malformed \<Rightarrow> Malformed
                | Unsupported \<Rightarrow> Unsupported))"

text \<open>
  Adding a property to an object: a key that is there keeps its place and takes the new
  value; a new array index goes before the first larger index or other key; any other
  new key goes last.
\<close>

fun insert_index :: "int \<Rightarrow> string \<times> json \<Rightarrow> (string \<times> json) list \<Rightarrow> (string \<times> json) list" where
  "insert_index n kv [] = [kv]"
| "insert_index n kv (p # ps) =
     (case index_of (fst p) of
        None \<Rightarrow> kv # p # ps
      | Some m \<Rightarrow> if m < n then p # insert_index n kv ps else kv # p # ps)"

fun add_prop :: "(string \<times> json) list \<Rightarrow> string \<times> json \<Rightarrow> (string \<times> json) list" where
  "add_prop props (k, v) =
     (if k \<in> fst ` set props
      then map (\<lambda>(k', v'). if k' = k then (k', v) else (k', v')) props
      else (case index_of k of
              None \<Rightarrow> props @ [(k, v)]
            | Some n \<Rightarrow> insert_index n (k, v) props))"

definition make_object :: "(string \<times> json) list \<Rightarrow> json" where
  "make_object kvs = JObj (foldl add_prop [] kvs)"

text \<open>The recursion is on a fuel that \<open>decode\<close> sets from the length of the text.\<close>

fun parse_value :: "nat \<Rightarrow> string \<Rightarrow> (json \<times> string) parsed"
  and parse_elements :: "nat \<Rightarrow> string \<Rightarrow> (json list \<times> string) parsed"
  and parse_members :: "nat \<Rightarrow> string \<Rightarrow> ((string \<times> json) list \<times> string) parsed"
where
  "parse_value 0 s = Unsupported"
| "parse_value (Suc n) s =
     (case skip_ws s of
        [] \<Rightarrow> Malformed
      | c # r \<Rightarrow>
          if c = CHR ''n''
          then (case literal ''ull'' r of Some r' \<Rightarrow> Parsed (JNull, r') | None \<Rightarrow> Malformed)
          else if c = CHR ''t''
          then (case literal ''rue'' r of
                  Some r' \<Rightarrow> Parsed (JBool True, r')
                | None \<Rightarrow> Malformed)
          else if c = CHR ''f''
          then (case literal ''alse'' r of
                  Some r' \<Rightarrow> Parsed (JBool False, r')
                | None \<Rightarrow> Malformed)
          else if c = dquote
          then (case parse_chars r of
                  Parsed (str, r') \<Rightarrow> Parsed (JStr str, r')
                | Malformed \<Rightarrow> Malformed
                | Unsupported \<Rightarrow> Unsupported)
          else if c = CHR ''[''
          then (case skip_ws r of
                  [] \<Rightarrow> Malformed
                | c' # r' \<Rightarrow>
                    if c' = CHR '']'' then Parsed (JArr [], r')
                    else (case parse_elements n (c' # r') of
                            Parsed (vs, r'') \<Rightarrow> Parsed (JArr vs, r'')
                          | Malformed \<Rightarrow> Malformed
                          | Unsupported \<Rightarrow> Unsupported))
          else if c = CHR ''{''
          then (case skip_ws r of
                  [] \<Rightarrow> Malformed
                | c' # r' \<Rightarrow>
                    if c' = CHR ''}'' then Parsed (JObj [], r')
                    else (case parse_members n (c' # r') of
                            Parsed (kvs, r'') \<Rightarrow> Parsed (make_object kvs, r'')
                          | Malformed \<Rightarrow> Malformed
                          | Unsupported \<Rightarrow> Unsupported))
          else if c = CHR ''-'' \<or> is_digit c then parse_number (c # r)
          else Malformed)"
| "parse_elements 0 s = Unsupported"
| "parse_elements (Suc n) s =
     (case parse_value n s of
        Parsed (v, r) \<Rightarrow>
          (case skip_ws r of
             [] \<Rightarrow> Malformed
           | c # r' \<Rightarrow>
               if c = CHR '']'' then Parsed ([v], r')
               else if c = CHR '',''
               then (case parse_elements n r' of
                       Parsed (vs, r'') \<Rightarrow> Parsed (v # vs, r'')
                     | Malformed \<Rightarrow> Malformed
                     | Unsupported \<Rightarrow> Unsupported)
               else Malformed)
      | Malformed \<Rightarrow> Malformed
      | Unsupported \<Rightarrow> Unsupported)"
| "parse_members 0 s = Unsupported"
| "parse_members (Suc n) s =
     (case skip_ws s of
        [] \<Rightarrow> Malformed
      | c # r \<Rightarrow>
          if c = dquote
          then (case parse_chars r of
                  Parsed (k, r1) \<Rightarrow>
                    (case skip_ws r1 of
                       [] \<Rightarrow> Malformed
                     | c1 # r2 \<Rightarrow>
                         if c1 = CHR '':''
                         then (case parse_value n r2 of
                                 Parsed (v, r3) \<Rightarrow>
                                   (case skip_ws r3 of
                                      [] \<Rightarrow> Malformed
                                    | c3 # r4 \<Rightarrow>
                                        if c3 = CHR ''}'' then Parsed ([(k, v)], r4)
                                        else if c3 = CHR '',''
                                        then (case parse_members n r4 of
                                                Parsed (kvs, r5) \<Rightarrow> Parsed ((k, v) # kvs, r5)
                                              | Malformed \<Rightarrow> Malformed
                                              | Unsupported \<Rightarrow> Unsupported)
                                        else Malformed)
                               | Malformed \<Rightarrow> Malformed
                               | Unsupported \<Rightarrow> Unsupported)
                         else Malformed)
                | Malformed \<Rightarrow> Malformed
                | Unsupported \<Rightarrow> Unsupported)
          else Malformed)"

definition decode :: "string \<Rightarrow> json parsed" where
  "decode x =
     (case parse_value (2 * length x + 1) x of
        Parsed (v, r) \<Rightarrow> if skip_ws r = [] then Parsed v else Malformed
      | Malformed \<Rightarrow> Malformed
      | Unsupported \<Rightarrow> Unsupported)"

text \<open>What may follow a value inside the text that \<open>render\<close> gives, and what may start one.\<close>

definition delimited :: "string \<Rightarrow> bool" where
  "delimited rest =
     (case rest of [] \<Rightarrow> True | c # _ \<Rightarrow> c = CHR '','' \<or> c = CHR '']'' \<or> c = CHR ''}'')"

definition opens_value :: "char \<Rightarrow> bool" where
  "opens_value c =
     (c = CHR ''n'' \<or> c = CHR ''t'' \<or> c = CHR ''f'' \<or> c = dquote \<or> c = CHR ''[''
      \<or> c = CHR ''{'' \<or> c = CHR ''-'' \<or> is_digit c)"

text \<open>What comes back when a decoded message is encoded again.\<close>

definition recode :: "string \<Rightarrow> string option" where
  "recode x = (case decode x of Parsed v \<Rightarrow> encode v | Malformed \<Rightarrow> None | Unsupported \<Rightarrow> None)"

text \<open>
  The status frame as a text with a space after the colon, as a text without any space,
  and as a text without any space in which the key is given twice.
\<close>

definition spaced_status :: string where
  "spaced_status = CHR ''{'' # quote ''command'' @ '': '' @ quote ''status'' @ ''}''"

definition compact_status :: string where
  "compact_status = CHR ''{'' # quote ''command'' @ '':'' @ quote ''status'' @ ''}''"

definition repeated_key_status :: string where
  "repeated_key_status =
     CHR ''{'' # quote ''command'' @ '':'' @ quote ''action'' @ '','' @
     quote ''command'' @ '':'' @ quote ''status'' @ ''}''"

definition status_frame :: json where
  "status_frame = JObj [(''command'', JStr ''status'')]"

text \<open>
  A context frame as the content script builds it: the message holds double quotes and
  line feeds. The last property is there for the numbers.
\<close>

definition context_frame :: json where
  "context_frame =
     JObj [(''command'', JStr ''context''),
           (''game'', JStr ''Neuro-Duolingo Game''),
           (''data'',
            JObj [(''message'',
                   JStr (''New question: '' @ [dquote] @ ''hola'' @ [dquote, CHR 0x0A] @
                         ''Options:'' @ [CHR 0x0A] @ ''1. hello'')),
                  (''silent'', JBool False),
                  (''seen'', JArr [JNum 42, JNum (- 7), JNull])])]"

section \<open>Observations, invariants and scenarios\<close>

fun is_ws_send :: "effect \<Rightarrow> bool" where
  "is_ws_send (WsSend _ _) = True"
| "is_ws_send _ = False"

fun is_tab_message :: "effect \<Rightarrow> bool" where
  "is_tab_message (TabsSendMessage _ _) = True"
| "is_tab_message _ = False"

text \<open>The state in which \<^verbatim>\<open>sendToNeuro\<close> writes to the socket.\<close>

definition can_send :: "world \<Rightarrow> bool" where
  "can_send w =
     (isConnected w \<and> (case ws w of None \<Rightarrow> False | Some s \<Rightarrow> readyState w s = OPEN))"

text \<open>The notification with id \<open>n\<close> has been shown.\<close>

definition notified :: "string \<Rightarrow> world \<Rightarrow> bool" where
  "notified n w = (Notification n \<in> set (trace w))"

text \<open>An event in which \<^verbatim>\<open>new WebSocket\<close> does not throw.\<close>

fun no_throw :: "event \<Rightarrow> bool" where
  "no_throw (Connect throws) = (\<not> throws)"
| "no_throw (TimeoutFires _ throws) = (\<not> throws)"
| "no_throw _ = True"

text \<open>While the session is flagged connected, no retry has been counted.\<close>

definition calm :: "world \<Rightarrow> bool" where
  "calm w = (if isConnected w then reconnectAttempts w = 0 else True)"

text \<open>
  At most one timeout is pending, and it is the one \<^verbatim>\<open>reconnectTimer\<close> names; the running
  intervals are exactly the one \<^verbatim>\<open>heartbeatInterval\<close> names.
\<close>

definition timers_ok :: "world \<Rightarrow> bool" where
  "timers_ok w =
     (case reconnectTimer w of
        None \<Rightarrow> timeouts w = []
      | Some t \<Rightarrow> timeouts w = [] \<or> timeouts w = [t])"

definition intervals_ok :: "world \<Rightarrow> bool" where
  "intervals_ok w =
     (intervals w = (case heartbeatInterval w of None \<Rightarrow> [] | Some h \<Rightarrow> [h]))"

text \<open>What \<^verbatim>\<open>handleAction\<close> logs for an empty list of tabs, and the state after it.\<close>

definition no_tabs_prefix :: "bool \<Rightarrow> effect list" where
  "no_tabs_prefix pm =
     Log Warn ''No Duolingo tabs found for action'' #
     (if pm then [PopupLog Warn ''No Duolingo tabs found for action'',
                  PopupLogDuolingoActivity False] else [])"

definition no_tabs_world :: "bool \<Rightarrow> world \<Rightarrow> world" where
  "no_tabs_world pm w =
     (let w1 = emit (Log Warn ''No Duolingo tabs found for action'') w
      in if pm
         then emit (PopupLogDuolingoActivity False)
                (emit (PopupLog Warn ''No Duolingo tabs found for action'') w1)
         else w1)"

text \<open>
  The server accepts the connection and drops it at once, five times in a row: each
  socket opens, closes, and the retry timeout set by the close fires and connects again.
  The handles are the ones the run gives out (intervals 1, 3, 5, 7, 9; timeouts 2, 4, 6,
  8, 10).
\<close>

definition flaky_scenario :: "event list" where
  "flaky_scenario =
     [Connect False,
      SocketOpen 0 1000, SocketClose 0, TimeoutFires 2 False,
      SocketOpen 1 11050, SocketClose 1, TimeoutFires 4 False,
      SocketOpen 2 21100, SocketClose 2, TimeoutFires 6 False,
      SocketOpen 3 31150, SocketClose 3, TimeoutFires 8 False,
      SocketOpen 4 41200, SocketClose 4]"

text \<open>The server is down: six sockets in a row close without ever opening.\<close>

definition server_down_scenario :: "event list" where
  "server_down_scenario =
     [Connect False,
      SocketClose 0, TimeoutFires 1 False,
      SocketClose 1, TimeoutFires 2 False,
      SocketClose 2, TimeoutFires 3 False,
      SocketClose 3, TimeoutFires 4 False,
      SocketClose 4, TimeoutFires 5 False,
      SocketClose 5]"

text \<open>Three sockets fail, the fourth is connecting.\<close>

definition third_retry_scenario :: "event list" where
  "third_retry_scenario =
     [Connect False,
      SocketClose 0, TimeoutFires 1 False,
      SocketClose 1, TimeoutFires 2 False,
      SocketClose 2, TimeoutFires 3 False]"

text \<open>A session is opened and then shut down by \<^verbatim>\<open>disconnect()\<close>.\<close>

definition shutdown_scenario :: "event list" where
  "shutdown_scenario = [Connect False, SocketOpen 0 1000, Disconnect]"

text \<open>
  \<^verbatim>\<open>initialize()\<close> runs twice (from the constructor and from \<^verbatim>\<open>onStartup\<close>), so two
  sockets are connecting; \<^verbatim>\<open>disconnect()\<close> closes the second and forgets it; the first
  one then opens.
\<close>

definition orphan_open_scenario :: "event list" where
  "orphan_open_scenario = [Connect False, Connect False, Disconnect, SocketOpen 0 1000]"

text \<open>A session that is connected, with its socket open.\<close>

definition connected_world :: world where
  "connected_world = run [Connect False, SocketOpen 0 1000] (new_connection True)"

text \<open>A session whose socket has closed again, the retry timeout still pending.\<close>

definition dropped_world :: world where
  "dropped_world = run [Connect False, SocketOpen 0 1000, SocketClose 0] (new_connection True)"

text \<open>Action frames: the id an empty string, the id "42", and no id.\<close>

definition action_empty_id :: json where
  "action_empty_id =
     JObj [(''command'', JStr ''action''),
           (''data'', JObj [(''id'', JStr []), (''name'', JStr ''submit_answer'')])]"

definition action_42 :: json where
  "action_42 =
     JObj [(''command'', JStr ''action''),
           (''data'', JObj [(''id'', JStr ''42''), (''name'', JStr ''submit_answer'')])]"

definition action_no_id :: json where
  "action_no_id =
     JObj [(''command'', JStr ''action''),
           (''data'', JObj [(''name'', JStr ''submit_answer'')])]"

section \<open>Invariants of the connection\<close>

lemma emit_fields [simp]:
  "ws (emit e w) = ws w" "isConnected (emit e w) = isConnected w"
  "lastMessageTime (emit e w) = lastMessageTime w"
  "reconnectAttempts (emit e w) = reconnectAttempts w"
  "reconnectTimer (emit e w) = reconnectTimer w"
  "connectionLost (emit e w) = connectionLost w"
  "heartbeatInterval (emit e w) = heartbeatInterval w"
  "popupManager (emit e w) = popupManager w"
  "sockets (emit e w) = sockets w" "timeouts (emit e w) = timeouts w"
  "intervals (emit e w) = intervals w" "nextHandle (emit e w) = nextHandle w"
  "trace (emit e w) = trace w @ [e]"
  by (simp_all add: emit_def)

lemma readyState_emit [simp]: "readyState (emit e w) i = readyState w i"
  by (simp add: readyState_def)

lemma sendStartup_fields [simp]:
  "ws (sendStartup w) = ws w" "isConnected (sendStartup w) = isConnected w"
  "lastMessageTime (sendStartup w) = lastMessageTime w"
  "reconnectAttempts (sendStartup w) = reconnectAttempts w"
  "reconnectTimer (sendStartup w) = reconnectTimer w"
  "connectionLost (sendStartup w) = connectionLost w"
  "heartbeatInterval (sendStartup w) = heartbeatInterval w"
  "popupManager (sendStartup w) = popupManager w"
  "sockets (sendStartup w) = sockets w" "timeouts (sendStartup w) = timeouts w"
  "intervals (sendStartup w) = intervals w" "nextHandle (sendStartup w) = nextHandle w"
  by (simp_all add: sendStartup_def split: option.splits)

lemma stopHeartbeat_fields [simp]:
  "ws (stopHeartbeat w) = ws w" "isConnected (stopHeartbeat w) = isConnected w"
  "lastMessageTime (stopHeartbeat w) = lastMessageTime w"
  "reconnectAttempts (stopHeartbeat w) = reconnectAttempts w"
  "reconnectTimer (stopHeartbeat w) = reconnectTimer w"
  "connectionLost (stopHeartbeat w) = connectionLost w"
  "heartbeatInterval (stopHeartbeat w) = None"
  "popupManager (stopHeartbeat w) = popupManager w"
  "sockets (stopHeartbeat w) = sockets w" "timeouts (stopHeartbeat w) = timeouts w"
  "nextHandle (stopHeartbeat w) = nextHandle w"
  by (simp_all add: stopHeartbeat_def clearInterval_def split: option.splits)

lemma intervals_stopHeartbeat:
  "intervals_ok w \<Longrightarrow> intervals (stopHeartbeat w) = []"
  by (simp add: intervals_ok_def stopHeartbeat_def clearInterval_def split: option.splits)

lemma startHeartbeat_fields [simp]:
  "ws (startHeartbeat w) = ws w" "isConnected (startHeartbeat w) = isConnected w"
  "lastMessageTime (startHeartbeat w) = lastMessageTime w"
  "reconnectAttempts (startHeartbeat w) = reconnectAttempts w"
  "reconnectTimer (startHeartbeat w) = reconnectTimer w"
  "connectionLost (startHeartbeat w) = connectionLost w"
  "heartbeatInterval (startHeartbeat w) = Some (nextHandle w)"
  "popupManager (startHeartbeat w) = popupManager w"
  "sockets (startHeartbeat w) = sockets w" "timeouts (startHeartbeat w) = timeouts w"
  by (simp_all add: startHeartbeat_def Let_def)

lemma intervals_startHeartbeat:
  "intervals_ok w \<Longrightarrow> intervals (startHeartbeat w) = [nextHandle w]"
  by (simp add: startHeartbeat_def Let_def intervals_stopHeartbeat)

lemma heartbeatTick_fields [simp]:
  "reconnectTimer (heartbeatTick now w) = reconnectTimer w"
  "timeouts (heartbeatTick now w) = timeouts w"
  "heartbeatInterval (heartbeatTick now w) = heartbeatInterval w"
  "intervals (heartbeatTick now w) = intervals w"
  "isConnected (heartbeatTick now w) = isConnected w"
  "reconnectAttempts (heartbeatTick now w) = reconnectAttempts w"
  by (simp_all add: heartbeatTick_def Let_def split: option.splits)

lemma handleError_fields [simp]:
  "reconnectTimer (handleError w) = reconnectTimer w"
  "timeouts (handleError w) = timeouts w"
  "heartbeatInterval (handleError w) = heartbeatInterval w"
  "intervals (handleError w) = intervals w"
  "isConnected (handleError w) = isConnected w"
  "reconnectAttempts (handleError w) = reconnectAttempts w"
  by (simp_all add: handleError_def Let_def)

lemma handleMessage_fields [simp]:
  "reconnectTimer (handleMessage now p w) = reconnectTimer w"
  "timeouts (handleMessage now p w) = timeouts w"
  "heartbeatInterval (handleMessage now p w) = heartbeatInterval w"
  "intervals (handleMessage now p w) = intervals w"
  "isConnected (handleMessage now p w) = isConnected w"
  "reconnectAttempts (handleMessage now p w) = reconnectAttempts w"
  by (simp_all add: handleMessage_def Let_def split: option.splits json.splits)

lemma sendToNeuro_fields:
  "sendToNeuro msg w = Inr (b, w') \<Longrightarrow>
   reconnectTimer w' = reconnectTimer w \<and> timeouts w' = timeouts w
   \<and> heartbeatInterval w' = heartbeatInterval w \<and> intervals w' = intervals w
   \<and> isConnected w' = isConnected w \<and> reconnectAttempts w' = reconnectAttempts w"
  by (auto simp: sendToNeuro_def Let_def split: option.splits if_splits)

lemma scheduleReconnect_fields [simp]:
  "ws (scheduleReconnect w) = ws w" "isConnected (scheduleReconnect w) = isConnected w"
  "lastMessageTime (scheduleReconnect w) = lastMessageTime w"
  "reconnectAttempts (scheduleReconnect w) = reconnectAttempts w + 1"
  "reconnectTimer (scheduleReconnect w) = Some (nextHandle w)"
  "connectionLost (scheduleReconnect w) = connectionLost w"
  "heartbeatInterval (scheduleReconnect w) = heartbeatInterval w"
  "popupManager (scheduleReconnect w) = popupManager w"
  "sockets (scheduleReconnect w) = sockets w"
  "intervals (scheduleReconnect w) = intervals w"
  by (simp_all add: scheduleReconnect_def clearTimeout_def Let_def split: option.splits)

lemma timeouts_scheduleReconnect:
  "timers_ok w \<Longrightarrow> timeouts (scheduleReconnect w) = [nextHandle w]"
  by (auto simp: timers_ok_def scheduleReconnect_def clearTimeout_def Let_def
      split: option.splits)

lemma timers_ok_scheduleReconnect: "timers_ok w \<Longrightarrow> timers_ok (scheduleReconnect w)"
  by (simp add: timers_ok_def [of "scheduleReconnect w"] timeouts_scheduleReconnect)

lemma timers_ok_eqI:
  "timers_ok w \<Longrightarrow> reconnectTimer w' = reconnectTimer w \<Longrightarrow> timeouts w' = timeouts w \<Longrightarrow>
   timers_ok w'"
  by (simp add: timers_ok_def split: option.splits)

lemma intervals_ok_eqI:
  "intervals_ok w \<Longrightarrow> heartbeatInterval w' = heartbeatInterval w \<Longrightarrow>
   intervals w' = intervals w \<Longrightarrow> intervals_ok w'"
  by (simp add: intervals_ok_def)

lemma timers_ok_connect: "timers_ok w \<Longrightarrow> timers_ok (connect throws w)"
proof (cases throws)
  case True
  assume "timers_ok w"
  then have "timers_ok (emit (Log Error ''Error connecting to WebSocket:'')
      (emit (Log Info ''Attempting to connect to Neuro API...'') w))"
    by (rule timers_ok_eqI) simp_all
  then show ?thesis using True
    by (simp add: connect_def Let_def timers_ok_scheduleReconnect)
next
  case False
  assume "timers_ok w"
  then have "timers_ok ((emit (Log Info ''Attempting to connect to Neuro API...'') w)
      \<lparr>ws := Some (length (sockets w)), sockets := sockets w @ [CONNECTING]\<rparr>)"
    by (rule timers_ok_eqI) simp_all
  then show ?thesis using False
    by (simp add: connect_def Let_def)
qed

lemma intervals_ok_connect: "intervals_ok w \<Longrightarrow> intervals_ok (connect throws w)"
  by (simp add: connect_def Let_def intervals_ok_def)

lemma handleOpen_fields [simp]:
  "reconnectTimer (handleOpen now w) = reconnectTimer w"
  "timeouts (handleOpen now w) = timeouts w"
  "isConnected (handleOpen now w) = True"
  "reconnectAttempts (handleOpen now w) = 0"
  "connectionLost (handleOpen now w) = False"
  "lastMessageTime (handleOpen now w) = Some now"
  "heartbeatInterval (handleOpen now w) = Some (nextHandle w)"
  by (simp_all add: handleOpen_def Let_def showReconnectionNotification_def)

lemma intervals_handleOpen:
  "intervals_ok w \<Longrightarrow> intervals (handleOpen now w) = [nextHandle w]"
proof -
  assume ok: "intervals_ok w"
  have *: "intervals_ok w' \<Longrightarrow> nextHandle w' = nextHandle w \<Longrightarrow>
      intervals (startHeartbeat w') = [nextHandle w]" for w'
    by (simp add: intervals_startHeartbeat)
  show ?thesis
    unfolding handleOpen_def Let_def
    by (rule *) (use ok in \<open>simp_all add: intervals_ok_def showReconnectionNotification_def\<close>)
qed

lemma intervals_ok_handleOpen: "intervals_ok w \<Longrightarrow> intervals_ok (handleOpen now w)"
  by (simp add: intervals_ok_def [of "handleOpen now w"] intervals_handleOpen)

lemma handleClose_fields [simp]:
  "isConnected (handleClose w) = False"
  "reconnectAttempts (handleClose w) = reconnectAttempts w + 1"
  "heartbeatInterval (handleClose w) = None"
  "reconnectTimer (handleClose w) = Some (nextHandle w)"
  by (simp_all add: handleClose_def Let_def showDisconnectionNotification_def)

lemma timeouts_handleClose:
  "timers_ok w \<Longrightarrow> timeouts (handleClose w) = [nextHandle w]"
proof -
  assume ok: "timers_ok w"
  have *: "timers_ok w' \<Longrightarrow> nextHandle w' = nextHandle w \<Longrightarrow>
      timeouts (scheduleReconnect w') = [nextHandle w]" for w'
    by (simp add: timeouts_scheduleReconnect)
  show ?thesis
    unfolding handleClose_def Let_def
    by (rule *)
      (use ok in \<open>simp_all add: timers_ok_def showDisconnectionNotification_def
          split: option.splits\<close>)
qed

lemma intervals_handleClose:
  "intervals_ok w \<Longrightarrow> intervals (handleClose w) = []"
proof -
  assume ok: "intervals_ok w"
  then have "intervals (stopHeartbeat (w\<lparr>isConnected := False\<rparr>)) = []"
    by (intro intervals_stopHeartbeat) (simp add: intervals_ok_def)
  then show ?thesis
    by (simp add: handleClose_def Let_def showDisconnectionNotification_def)
qed

lemma disconnect_fields [simp]:
  "isConnected (disconnect w) = False" "ws (disconnect w) = None"
  "reconnectTimer (disconnect w) = None" "heartbeatInterval (disconnect w) = None"
  "timeouts (disconnect w) = (case reconnectTimer w of None \<Rightarrow> timeouts w
      | Some t \<Rightarrow> removeAll t (timeouts w))"
  "intervals (disconnect w) = intervals (stopHeartbeat w)"
  "reconnectAttempts (disconnect w) = reconnectAttempts w"
  by (simp_all add: disconnect_def Let_def socket_close_def clearTimeout_def
        split: option.splits)

lemma timeouts_disconnect: "timers_ok w \<Longrightarrow> timeouts (disconnect w) = []"
  by (auto simp: timers_ok_def split: option.splits)

lemma step_timers_ok: "timers_ok w \<Longrightarrow> timers_ok (step e w)"
proof (cases e)
  case (Connect x1)
  assume "timers_ok w" then show ?thesis using Connect by (simp add: timers_ok_connect)
next
  case Disconnect
  assume "timers_ok w" then show ?thesis using Disconnect
    by (simp add: timers_ok_def [of "disconnect w"] timeouts_disconnect del: disconnect_fields(5))
next
  case (SendToNeuro msg)
  assume ok: "timers_ok w"
  show ?thesis
  proof (cases "sendToNeuro msg w")
    case (Inl a)
    then show ?thesis using ok SendToNeuro by simp
  next
    case (Inr r)
    obtain b w' where r: "r = (b, w')" by (cases r)
    have "timers_ok w'"
      using ok by (rule timers_ok_eqI) (use sendToNeuro_fields [OF Inr [unfolded r]] in simp_all)
    then show ?thesis using SendToNeuro Inr r by simp
  qed
next
  case (SocketOpen i now)
  assume ok: "timers_ok w"
  have "timers_ok (handleOpen now (w\<lparr>sockets := (sockets w)[i := OPEN]\<rparr>))"
    using ok by (rule timers_ok_eqI) simp_all
  then show ?thesis using SocketOpen ok by simp
next
  case (SocketClose i)
  assume ok: "timers_ok w"
  then have "timers_ok (w\<lparr>sockets := (sockets w)[i := CLOSED]\<rparr>)"
    by (rule timers_ok_eqI) simp_all
  then show ?thesis using SocketClose ok
    by (simp add: timers_ok_def [of "handleClose w" for w] timeouts_handleClose)
next
  case (SocketError i)
  assume ok: "timers_ok w"
  have "timers_ok (handleError w)" using ok by (rule timers_ok_eqI) simp_all
  then show ?thesis using SocketError ok by simp
next
  case (SocketMessage i now p)
  assume ok: "timers_ok w"
  have "timers_ok (handleMessage now p w)" using ok by (rule timers_ok_eqI) simp_all
  then show ?thesis using SocketMessage ok by simp
next
  case (TimeoutFires t throws)
  assume ok: "timers_ok w"
  then have "timers_ok (w\<lparr>timeouts := removeAll t (timeouts w)\<rparr>)"
    by (auto simp: timers_ok_def split: option.splits if_splits)
  then show ?thesis using TimeoutFires ok
    by (simp add: timers_ok_connect)
next
  case (IntervalFires h now)
  assume ok: "timers_ok w"
  have "timers_ok (heartbeatTick now w)" using ok by (rule timers_ok_eqI) simp_all
  then show ?thesis using IntervalFires ok by simp
qed

lemma step_intervals_ok: "intervals_ok w \<Longrightarrow> intervals_ok (step e w)"
proof (cases e)
  case (Connect x1)
  assume "intervals_ok w" then show ?thesis using Connect by (simp add: intervals_ok_connect)
next
  case Disconnect
  assume "intervals_ok w" then show ?thesis using Disconnect
    by (simp add: intervals_ok_def [of "disconnect w"] intervals_stopHeartbeat)
next
  case (SendToNeuro msg)
  assume ok: "intervals_ok w"
  show ?thesis
  proof (cases "sendToNeuro msg w")
    case (Inl a)
    then show ?thesis using ok SendToNeuro by simp
  next
    case (Inr r)
    obtain b w' where r: "r = (b, w')" by (cases r)
    have "intervals_ok w'"
      using ok by (rule intervals_ok_eqI) (use sendToNeuro_fields [OF Inr [unfolded r]] in simp_all)
    then show ?thesis using SendToNeuro Inr r by simp
  qed
next
  case (SocketOpen i now)
  assume ok: "intervals_ok w"
  then have "intervals_ok (w\<lparr>sockets := (sockets w)[i := OPEN]\<rparr>)"
    by (rule intervals_ok_eqI) simp_all
  then show ?thesis using SocketOpen ok
    by (simp add: intervals_ok_handleOpen)
next
  case (SocketClose i)
  assume ok: "intervals_ok w"
  then have "intervals_ok (w\<lparr>sockets := (sockets w)[i := CLOSED]\<rparr>)"
    by (rule intervals_ok_eqI) simp_all
  then show ?thesis using SocketClose ok
    by (simp add: intervals_ok_def [of "handleClose w" for w] intervals_handleClose)
next
  case (SocketError i)
  assume ok: "intervals_ok w"
  have "intervals_ok (handleError w)" using ok by (rule intervals_ok_eqI) simp_all
  then show ?thesis using SocketError ok by simp
next
  case (SocketMessage i now p)
  assume ok: "intervals_ok w"
  have "intervals_ok (handleMessage now p w)" using ok by (rule intervals_ok_eqI) simp_all
  then show ?thesis using SocketMessage ok by simp
next
  case (TimeoutFires t throws)
  assume ok: "intervals_ok w"
  then have "intervals_ok (w\<lparr>timeouts := removeAll t (timeouts w)\<rparr>)"
    by (rule intervals_ok_eqI) simp_all
  then show ?thesis using TimeoutFires ok
    by (simp add: intervals_ok_connect)
next
  case (IntervalFires h now)
  assume ok: "intervals_ok w"
  have "intervals_ok (heartbeatTick now w)" using ok by (rule intervals_ok_eqI) simp_all
  then show ?thesis using IntervalFires ok by simp
qed

lemma run_timers_ok: "timers_ok w \<Longrightarrow> timers_ok (run es w)"
  by (induction es arbitrary: w) (simp_all add: step_timers_ok)

lemma run_intervals_ok: "intervals_ok w \<Longrightarrow> intervals_ok (run es w)"
  by (induction es arbitrary: w) (simp_all add: step_intervals_ok)

lemma new_connection_ok: "timers_ok (new_connection pm)" "intervals_ok (new_connection pm)"
  by (simp_all add: timers_ok_def intervals_ok_def new_connection_def)


section \<open>Which notifications can be shown\<close>

lemma notified_emit [simp]: "notified n (emit e w) = (e = Notification n \<or> notified n w)"
  by (auto simp: notified_def)

lemma notified_upd [simp]:
  "notified n (w\<lparr>sockets := ss\<rparr>) = notified n w"
  "notified n (w\<lparr>timeouts := ts\<rparr>) = notified n w"
  "notified n (w\<lparr>isConnected := b\<rparr>) = notified n w"
  "notified n (w\<lparr>connectionLost := b\<rparr>) = notified n w"
  "notified n (w\<lparr>heartbeatInterval := h\<rparr>) = notified n w"
  "notified n (w\<lparr>reconnectTimer := r\<rparr>) = notified n w"
  "notified n (w\<lparr>ws := s\<rparr>) = notified n w"
  "notified n (w\<lparr>intervals := ts\<rparr>) = notified n w"
  "notified n (w\<lparr>nextHandle := h'\<rparr>) = notified n w"
  "notified n (w\<lparr>reconnectAttempts := k\<rparr>) = notified n w"
  "notified n (w\<lparr>lastMessageTime := t\<rparr>) = notified n w"
  "notified n (w\<lparr>pendingMessage := p\<rparr>) = notified n w"
  by (simp_all add: notified_def)

lemma notified_sendStartup [simp]: "notified n (sendStartup w) = notified n w"
  by (simp add: sendStartup_def split: option.splits)

lemma notified_stopHeartbeat [simp]: "notified n (stopHeartbeat w) = notified n w"
  by (simp add: stopHeartbeat_def clearInterval_def split: option.splits)

lemma notified_startHeartbeat [simp]: "notified n (startHeartbeat w) = notified n w"
  by (simp add: startHeartbeat_def Let_def)

lemma notified_scheduleReconnect [simp]: "notified n (scheduleReconnect w) = notified n w"
  by (simp add: scheduleReconnect_def clearTimeout_def Let_def split: option.splits)

lemma notified_connect [simp]: "notified n (connect throws w) = notified n w"
  by (simp add: connect_def Let_def)

lemma notified_heartbeatTick [simp]: "notified n (heartbeatTick now w) = notified n w"
  by (simp add: heartbeatTick_def Let_def split: option.splits)

lemma notified_handleError [simp]: "notified n (handleError w) = notified n w"
  by (simp add: handleError_def Let_def)

lemma notified_handleMessage [simp]: "notified n (handleMessage now p w) = notified n w"
  by (simp add: handleMessage_def Let_def split: option.splits json.splits)

lemma notified_sendToNeuro:
  "sendToNeuro msg w = Inr (b, w') \<Longrightarrow> notified n w' = notified n w"
  by (auto simp: sendToNeuro_def Let_def split: option.splits if_splits)

lemma notified_disconnect [simp]: "notified n (disconnect w) = notified n w"
  by (simp add: disconnect_def Let_def socket_close_def clearTimeout_def split: option.splits)

lemma notified_handleOpen [simp]: "notified n (handleOpen now w) = notified n w"
  by (simp add: handleOpen_def Let_def showReconnectionNotification_def)

lemma notified_handleClose:
  "notified n (handleClose w) =
     (notified n w \<or> (n = NOTIFICATION_DISCONNECT \<and> isConnected w \<and> \<not> connectionLost w
         \<and> MAX_RECONNECT_ATTEMPTS \<le> reconnectAttempts w))"
  by (auto simp: handleClose_def Let_def showDisconnectionNotification_def)

lemma notified_step_reconnect: "notified NOTIFICATION_RECONNECT (step e w) = notified NOTIFICATION_RECONNECT w"
proof (cases e)
  case (SendToNeuro msg)
  then show ?thesis
    by (auto split: sum.splits dest: notified_sendToNeuro)
next
  case (SocketClose i)
  then show ?thesis
    by (simp add: notified_handleClose NOTIFICATION_RECONNECT_def NOTIFICATION_DISCONNECT_def)
qed simp_all

lemma never_restored: "\<not> notified NOTIFICATION_RECONNECT (run es (new_connection pm))"
proof -
  have "notified NOTIFICATION_RECONNECT (run es w) = notified NOTIFICATION_RECONNECT w" for w
    by (induction es arbitrary: w) (simp_all add: notified_step_reconnect)
  then show ?thesis
    by (simp add: notified_def new_connection_def)
qed

lemma calm_step: "calm w \<Longrightarrow> no_throw e \<Longrightarrow> calm (step e w)"
proof (cases e)
  case (SendToNeuro msg)
  assume "calm w" then show ?thesis using SendToNeuro
    by (auto simp: calm_def split: sum.splits dest!: sendToNeuro_fields)
next
  case (Connect t)
  assume "calm w" "no_throw e" then show ?thesis using Connect
    by (simp add: calm_def connect_def Let_def)
next
  case (TimeoutFires h t)
  assume "calm w" "no_throw e" then show ?thesis using TimeoutFires
    by (simp add: calm_def connect_def Let_def)
qed (simp_all add: calm_def)

lemma quiet_step:
  "calm w \<Longrightarrow> notified NOTIFICATION_DISCONNECT (step e w) = notified NOTIFICATION_DISCONNECT w"
proof (cases e)
  case (SendToNeuro msg)
  then show ?thesis
    by (auto split: sum.splits dest: notified_sendToNeuro)
next
  case (SocketClose i)
  assume "calm w"
  then show ?thesis using SocketClose
    by (simp add: notified_handleClose calm_def MAX_RECONNECT_ATTEMPTS_def split: if_splits)
qed simp_all

lemma never_lost:
  "list_all no_throw es \<Longrightarrow> \<not> notified NOTIFICATION_DISCONNECT (run es (new_connection pm))"
proof -
  have "calm w \<Longrightarrow> list_all no_throw es \<Longrightarrow>
        notified NOTIFICATION_DISCONNECT (run es w) = notified NOTIFICATION_DISCONNECT w" for w
    by (induction es arbitrary: w) (simp_all add: quiet_step calm_step)
  moreover have "calm (new_connection pm)"
    by (simp add: calm_def new_connection_def)
  moreover assume "list_all no_throw es"
  ultimately show ?thesis
    by (simp add: notified_def new_connection_def)
qed

section \<open>Properties of the connection\<close>

lemma reconnect_delay_values:
  "reconnect_delay 1 = 10000" "reconnect_delay 2 = 15000" "reconnect_delay 3 = 22500"
  "reconnect_delay 4 = 33750" "reconnect_delay 5 = 50625" "reconnect_delay 6 = 60000"
  by (simp_all add: reconnect_delay_def RECONNECT_INTERVAL_def MAX_RECONNECT_INTERVAL_def
      power_int_def power_divide)

lemma reconnect_delay_mono: "reconnect_delay n \<le> reconnect_delay (n + int k)"
proof -
  have "(3 / 2 :: rat) powi (min (n - 1) 8) \<le> (3 / 2) powi (min (n + int k - 1) 8)"
    by (rule power_int_increasing) auto
  then show ?thesis
    unfolding reconnect_delay_def RECONNECT_INTERVAL_def MAX_RECONNECT_INTERVAL_def
    by (simp add: min_le_iff_disj)
qed

lemma last_trace_scheduleReconnect:
  "last (trace (scheduleReconnect w)) =
     SetTimeout (nextHandle w) (reconnect_delay (reconnectAttempts w + 1))"
  by (simp add: scheduleReconnect_def Let_def clearTimeout_def split: option.splits)

lemma handleClose_pre_fields:
  "nextHandle w' = nextHandle w \<Longrightarrow> reconnectAttempts w' = reconnectAttempts w \<Longrightarrow>
   last (trace (scheduleReconnect w')) =
     SetTimeout (nextHandle w) (reconnect_delay (reconnectAttempts w + 1))"
  by (simp add: last_trace_scheduleReconnect)

lemma last_trace_handleClose:
  "last (trace (handleClose w)) =
     SetTimeout (nextHandle w) (reconnect_delay (reconnectAttempts w + 1))"
  unfolding handleClose_def Let_def
  by (rule handleClose_pre_fields) (simp_all add: showDisconnectionNotification_def)

text \<open>
  C3. Every close event runs \<^verbatim>\<open>scheduleReconnect\<close>, which adds one to
  \<^verbatim>\<open>reconnectAttempts\<close> and sets a timeout of
  \<open>min(maxInterval, baseInterval * 1.5^min(attempts - 1, 8))\<close> for the new count; with
  the configured 10000 and 60000 the delays for counts 1 to 4 are 10000, 15000, 22500 and
  33750, the delay never decreases as the count grows, and it never exceeds 60000.
\<close>

theorem backoff_delay:
  "reconnectAttempts (handleClose w) = reconnectAttempts w + 1
   \<and> last (trace (handleClose w)) =
       SetTimeout (nextHandle w) (reconnect_delay (reconnectAttempts w + 1))
   \<and> reconnect_delay n = min 60000 (10000 * ((3 / 2) powi (min (n - 1) 8)))
   \<and> [reconnect_delay 1, reconnect_delay 2, reconnect_delay 3, reconnect_delay 4] =
       [10000, 15000, 22500, 33750]
   \<and> reconnect_delay n \<le> reconnect_delay (n + int k)
   \<and> reconnect_delay n \<le> 60000"
proof -
  have a: "reconnect_delay n = min 60000 (10000 * ((3 / 2) powi (min (n - 1) 8)))"
    by (simp add: reconnect_delay_def RECONNECT_INTERVAL_def MAX_RECONNECT_INTERVAL_def)
  have b: "reconnect_delay n \<le> 60000"
    by (simp add: a)
  have c: "[reconnect_delay 1, reconnect_delay 2, reconnect_delay 3, reconnect_delay 4] =
       [10000, 15000, 22500, 33750]"
    by (simp only: reconnect_delay_values)
  have d: "reconnectAttempts (handleClose w) = reconnectAttempts w + 1"
    by simp
  from a b c d last_trace_handleClose [of w] reconnect_delay_mono [of n k]
  show ?thesis by blast
qed

text \<open>
  C7. Whatever events have happened since the object was created, at most one retry
  timeout is pending; and scheduling a retry then leaves exactly the new timeout pending,
  any earlier one having been cleared first.
\<close>

theorem single_reconnect_timer:
  "length (timeouts (run es (new_connection pm))) \<le> 1
   \<and> timeouts (scheduleReconnect (run es (new_connection pm))) =
       [nextHandle (run es (new_connection pm))]
   \<and> timeouts (handleClose (run es (new_connection pm))) =
       [nextHandle (run es (new_connection pm))]"
proof -
  have ok: "timers_ok (run es (new_connection pm))"
    by (simp add: run_timers_ok new_connection_ok)
  then have "length (timeouts (run es (new_connection pm))) \<le> 1"
    by (auto simp: timers_ok_def split: option.splits)
  with ok show ?thesis
    by (simp add: timeouts_scheduleReconnect timeouts_handleClose)
qed

text \<open>
  C8. Whatever events have happened before, right after \<^verbatim>\<open>handleOpen\<close> has run on a socket's
  open event (at time \<open>now\<close>, the sockets being in any state \<open>ss\<close>) the session is
  connected, \<^verbatim>\<open>reconnectAttempts\<close> is 0, \<^verbatim>\<open>connectionLost\<close> is false, \<^verbatim>\<open>lastMessageTime\<close> is
  \<open>now\<close>, and exactly one heartbeat interval is running, the one just created.
\<close>

theorem heartbeat_after_open:
  "isConnected (handleOpen now ((run es (new_connection pm))\<lparr>sockets := ss\<rparr>))
   \<and> reconnectAttempts (handleOpen now ((run es (new_connection pm))\<lparr>sockets := ss\<rparr>)) = 0
   \<and> connectionLost (handleOpen now ((run es (new_connection pm))\<lparr>sockets := ss\<rparr>)) = False
   \<and> lastMessageTime (handleOpen now ((run es (new_connection pm))\<lparr>sockets := ss\<rparr>)) = Some now
   \<and> intervals (handleOpen now ((run es (new_connection pm))\<lparr>sockets := ss\<rparr>)) =
       [nextHandle (run es (new_connection pm))]
   \<and> heartbeatInterval (handleOpen now ((run es (new_connection pm))\<lparr>sockets := ss\<rparr>)) =
       Some (nextHandle (run es (new_connection pm)))
   \<and> length (intervals (run es (new_connection pm))) \<le> 1"
proof -
  let ?w = "run es (new_connection pm)"
  have ok: "intervals_ok ?w"
    by (simp add: run_intervals_ok new_connection_ok)
  then have ok': "intervals_ok (?w\<lparr>sockets := ss\<rparr>)"
    by (rule intervals_ok_eqI) simp_all
  have "length (intervals ?w) \<le> 1"
    using ok by (simp add: intervals_ok_def split: option.splits)
  then show ?thesis
    using intervals_handleOpen [OF ok', of now] by simp
qed

section \<open>Notifications\<close>

text \<open>
  C1. The specification has the "connection lost" notification fire exactly once, on the
  fifth closure of a session that keeps opening and closing, with a maximum of 5
  attempts. Evaluated on that scenario the code shows no notification and leaves
  \<^verbatim>\<open>connectionLost\<close> false: each open resets \<^verbatim>\<open>reconnectAttempts\<close> to 0, and the test
  against the maximum is made only when the closing session was connected. When the
  server is down instead, the count reaches 6 and again nothing is shown.
\<close>

theorem escalation_never_fires:
  "Notification NOTIFICATION_DISCONNECT
     \<notin> set (trace (run flaky_scenario (new_connection True)))
   \<and> connectionLost (run flaky_scenario (new_connection True)) = False
   \<and> reconnectAttempts (run flaky_scenario (new_connection True)) = 1
   \<and> reconnectAttempts (run server_down_scenario (new_connection True)) = 6
   \<and> Notification NOTIFICATION_DISCONNECT
        \<notin> set (trace (run server_down_scenario (new_connection True)))"
  by code_simp

text \<open>
  C4. The specification has a socket that opens after more than one reconnect attempt
  show the "connection restored" notification. Evaluated after three failed attempts,
  the open shows none: \<^verbatim>\<open>handleOpen\<close> sets \<^verbatim>\<open>reconnectAttempts\<close> to 0 before it tests
  \<^verbatim>\<open>reconnectAttempts > 1\<close>.
\<close>

theorem no_restored_notification:
  "reconnectAttempts (run third_retry_scenario (new_connection True)) = 3
   \<and> isConnected (run (third_retry_scenario @ [SocketOpen 3 35000]) (new_connection True))
   \<and> Notification NOTIFICATION_RECONNECT
        \<notin> set (trace (run (third_retry_scenario @ [SocketOpen 3 35000])
                          (new_connection True)))"
  by code_simp

section \<open>Closing the session\<close>

lemma disconnect_idempotent: "disconnect (disconnect w) = disconnect w"
  by (simp add: disconnect_def [of "disconnect w"] Let_def stopHeartbeat_def)

lemma disconnect_cancels:
  "timeouts (disconnect (run es (new_connection pm))) = []
   \<and> intervals (disconnect (run es (new_connection pm))) = []
   \<and> isConnected (disconnect (run es (new_connection pm))) = False
   \<and> ws (disconnect (run es (new_connection pm))) = None"
proof -
  have "timers_ok (run es (new_connection pm))" "intervals_ok (run es (new_connection pm))"
    by (simp_all add: run_timers_ok run_intervals_ok new_connection_ok)
  then show ?thesis
    by (simp add: timeouts_disconnect intervals_stopHeartbeat del: disconnect_fields(5))
qed

text \<open>
  C2. The specification has \<^verbatim>\<open>disconnect()\<close> idempotent and final: after it no
  reconnection is scheduled by any later close event. Evaluated on a session that is
  opened and then disconnected: the call leaves no timeout pending, but the close event
  of the socket it has just closed runs \<^verbatim>\<open>handleClose\<close>, which sets a retry timeout, and
  when that fires a new socket is made.
\<close>

theorem reconnect_after_disconnect:
  "timeouts (run shutdown_scenario (new_connection True)) = []
   \<and> reconnectTimer (run shutdown_scenario (new_connection True)) = None
   \<and> sockets (run shutdown_scenario (new_connection True)) = [CLOSING]
   \<and> timeouts (run (shutdown_scenario @ [SocketClose 0]) (new_connection True)) = [2]
   \<and> reconnectTimer (run (shutdown_scenario @ [SocketClose 0]) (new_connection True)) = Some 2
   \<and> ws (run (shutdown_scenario @ [SocketClose 0, TimeoutFires 2 False])
            (new_connection True)) = Some 1
   \<and> sockets (run (shutdown_scenario @ [SocketClose 0, TimeoutFires 2 False])
                 (new_connection True)) = [CLOSED, CONNECTING]"
  by code_simp

section \<open>Sending\<close>

lemma sendToNeuro_rejects:
  "falsy_str (command msg) \<Longrightarrow> \<not> (isConnected w \<and> ws w = None) \<Longrightarrow>
   sendToNeuro msg w =
     Inr (False, emit (if can_send w
                       then Log Error ''Invalid message format: missing command''
                       else Log Warn ''Cannot send message, not connected to Neuro API'') w)"
  by (auto simp: sendToNeuro_def can_send_def split: option.splits)

text \<open>
  C5. The specification has \<^verbatim>\<open>sendToNeuro\<close> return false for a frame without a command,
  write nothing and never throw. Evaluated in the state where the session is flagged
  connected while \<^verbatim>\<open>this.ws\<close> is null, the call throws a TypeError at
  \<^verbatim>\<open>this.ws.readyState\<close>.
\<close>

theorem send_throws_without_socket:
  "isConnected (run orphan_open_scenario (new_connection True))
   \<and> ws (run orphan_open_scenario (new_connection True)) = None
   \<and> sendToNeuro \<lparr>command = None, game = None, data = None\<rparr>
        (run orphan_open_scenario (new_connection True)) = Inl TypeError"
  by code_simp

section \<open>Actions without a tab\<close>

lemma emitted_append: "trace w' = trace w @ effs \<Longrightarrow> emitted w w' = effs"
  by (simp add: emitted_def)

lemma popup_log_fields [simp]:
  "isConnected (popup_log pm l m w) = isConnected w" "ws (popup_log pm l m w) = ws w"
  "sockets (popup_log pm l m w) = sockets w"
  "trace (popup_log pm l m w) = trace w @ (if pm then [PopupLog l m] else [])"
  by (simp_all add: popup_log_def)

lemma action_result_ok [simp]:
  "falsy_str (command (action_result i m)) = False"
  "falsy_str (game (action_result i m)) = False"
  by (simp_all add: action_result_def falsy_str_def GAME_NAME_def)

lemma can_send_cong:
  "isConnected w' = isConnected w \<Longrightarrow> ws w' = ws w \<Longrightarrow> sockets w' = sockets w \<Longrightarrow>
   can_send w' = can_send w"
  by (simp add: can_send_def readyState_def split: option.splits)

lemma sendToNeuro_can_send:
  "can_send w \<Longrightarrow>
   sendToNeuro (action_result i m) w =
     Inr (True, emit (Log Info ''Sent command to Neuro'')
                  (emit (WsSend (the (ws w)) (action_result i m)) w))"
  by (auto simp: can_send_def sendToNeuro_def split: option.splits)

lemma sendToNeuro_null_socket:
  "isConnected w \<Longrightarrow> ws w = None \<Longrightarrow> sendToNeuro msg w = Inl TypeError"
  by (simp add: sendToNeuro_def)

lemma sendToNeuro_not_connected:
  "\<not> can_send w \<Longrightarrow> \<not> (isConnected w \<and> ws w = None) \<Longrightarrow>
   sendToNeuro msg w =
     Inr (False, emit (Log Warn ''Cannot send message, not connected to Neuro API'') w)"
  by (auto simp: can_send_def sendToNeuro_def split: option.splits)

lemma no_tabs_world_fields [simp]:
  "isConnected (no_tabs_world pm w) = isConnected w" "ws (no_tabs_world pm w) = ws w"
  "sockets (no_tabs_world pm w) = sockets w"
  "trace (no_tabs_world pm w) = trace w @ no_tabs_prefix pm"
  by (simp_all add: no_tabs_world_def no_tabs_prefix_def Let_def)

lemma handleAction_no_tabs:
  "valid_action msg = Some (d, i) \<Longrightarrow> msg \<noteq> JNull \<Longrightarrow>
   handleAction pm msg (Inr []) delivers w =
     (case sendToNeuro (action_result i ''No Duolingo tab is currently open.'')
             (no_tabs_world pm w) of
        Inl e \<Rightarrow> action_catch pm i (no_tabs_world pm w)
      | Inr (_, w3) \<Rightarrow> (None, w3))"
  unfolding no_tabs_world_def Let_def handleAction_def
  by (cases pm) simp_all

lemma trace_no_tabs_can_send:
  assumes "valid_action msg = Some (d, i)" "msg \<noteq> JNull" "can_send w"
  shows "trace (snd (handleAction pm msg (Inr []) delivers w)) =
         trace w @ no_tabs_prefix pm @
           [WsSend (the (ws w)) (action_result i ''No Duolingo tab is currently open.''),
            Log Info ''Sent command to Neuro'']"
proof -
  have "can_send (no_tabs_world pm w) = can_send w"
    by (rule can_send_cong) simp_all
  then have "can_send (no_tabs_world pm w)"
    using assms(3) by simp
  then show ?thesis
    by (simp add: handleAction_no_tabs [OF assms(1,2)] sendToNeuro_can_send)
qed

lemma trace_no_tabs_not_connected:
  assumes "valid_action msg = Some (d, i)" "msg \<noteq> JNull" "\<not> can_send w"
    "\<not> (isConnected w \<and> ws w = None)"
  shows "trace (snd (handleAction pm msg (Inr []) delivers w)) =
         trace w @ no_tabs_prefix pm @
           [Log Warn ''Cannot send message, not connected to Neuro API'']"
proof -
  have "can_send (no_tabs_world pm w) = can_send w"
    by (rule can_send_cong) simp_all
  then have "\<not> can_send (no_tabs_world pm w)"
    using assms(3) by simp
  moreover have "\<not> (isConnected (no_tabs_world pm w) \<and> ws (no_tabs_world pm w) = None)"
    using assms(4) by simp
  ultimately show ?thesis
    by (simp add: handleAction_no_tabs [OF assms(1,2)] sendToNeuro_not_connected)
qed

lemma trace_no_tabs_null_socket:
  assumes "valid_action msg = Some (d, i)" "msg \<noteq> JNull" "isConnected w" "ws w = None"
  shows "trace (snd (handleAction pm msg (Inr []) delivers w)) =
         trace w @ no_tabs_prefix pm @
           Log Error ''Error handling action:'' #
           (if pm then [PopupLog Error ''Error handling action''] else [])"
proof -
  have a: "sendToNeuro m (no_tabs_world pm w) = Inl TypeError" for m
    using assms(3,4) by (simp add: sendToNeuro_null_socket)
  have b: "sendToNeuro m
      (popup_log pm Error ''Error handling action''
         (emit (Log Error ''Error handling action:'') (no_tabs_world pm w))) = Inl TypeError" for m
    using assms(3,4) by (simp add: sendToNeuro_null_socket)
  show ?thesis
    by (simp add: handleAction_no_tabs [OF assms(1,2)] a action_catch_def Let_def b)
qed

lemma filter_no_tabs_prefix [simp]:
  "filter is_ws_send (no_tabs_prefix pm) = []" "filter is_tab_message (no_tabs_prefix pm) = []"
  by (simp_all add: no_tabs_prefix_def)

lemma zero_tabs:
  assumes "valid_action msg = Some (d, i)" "msg \<noteq> JNull"
  shows "filter is_ws_send (emitted w (snd (handleAction pm msg (Inr []) delivers w))) =
         (if can_send w then [WsSend (the (ws w)) (action_result i ''No Duolingo tab is currently open.'')] else [])
       \<and> filter is_tab_message (emitted w (snd (handleAction pm msg (Inr []) delivers w))) = []"
proof -
  consider (a) "can_send w" | (b) "isConnected w" "ws w = None"
    | (c) "\<not> can_send w" "\<not> (isConnected w \<and> ws w = None)"
    by auto
  then show ?thesis
  proof cases
    case a
    show ?thesis
      by (simp add: emitted_append [OF trace_no_tabs_can_send [OF assms a]] a)
  next
    case b
    then have "\<not> can_send w" by (simp add: can_send_def)
    then show ?thesis
      by (simp add: emitted_append [OF trace_no_tabs_null_socket [OF assms b]])
  next
    case c
    show ?thesis
      by (simp add: emitted_append [OF trace_no_tabs_not_connected [OF assms c]] c)
  qed
qed

lemma invalid_action:
  assumes "valid_action msg = None" "msg \<noteq> JNull"
  shows "handleAction pm msg tabsQuery delivers w =
     (None, popup_log pm Error ''Invalid action message: missing data or id''
              (emit (Log Error ''Invalid action message: missing data or id'') w))"
  using assms by (simp add: handleAction_def)

lemma valid_action_iff:
  "(valid_action msg = Some (d, i)) =
     (field ''data'' msg = Some d \<and> field ''id'' d = Some i \<and> truthy i)"
proof (cases "field ''data'' msg")
  case None
  then show ?thesis by (simp add: valid_action_def)
next
  case (Some d')
  have "truthy d'" if "field ''id'' d' = Some i" for i
    using that by (cases d') simp_all
  then show ?thesis
    using Some by (auto simp: valid_action_def split: option.splits)
qed

text \<open>
  C6, as the code has it. For an action frame whose \<^verbatim>\<open>data.id\<close> is truthy and an empty
  list of tabs, no message goes to any tab and the only frame written to the socket is
  the failure result (command \<^verbatim>\<open>action/result\<close>, \<^verbatim>\<open>success\<close> false, the message "No Duolingo
  tab is currently open.", the id of the request), written once when the session is
  connected with its socket open and not at all otherwise. For an action frame whose
  \<^verbatim>\<open>data\<close> or \<^verbatim>\<open>data.id\<close> is missing or falsy, the error is logged and nothing else happens.
\<close>

theorem action_without_tabs:
  assumes "field ''command'' msg = Some (JStr ''action'')"
  shows "(field ''data'' msg = Some d \<and> field ''id'' d = Some i \<and> truthy i \<longrightarrow>
            filter is_ws_send (emitted w (snd (handleAction pm msg (Inr []) delivers w))) =
              (if can_send w
               then [WsSend (the (ws w))
                       (action_result i ''No Duolingo tab is currently open.'')]
               else [])
            \<and> filter is_tab_message
                (emitted w (snd (handleAction pm msg (Inr []) delivers w))) = [])
         \<and> (valid_action msg = None \<longrightarrow>
              handleAction pm msg tabsQuery delivers w =
                (None, popup_log pm Error ''Invalid action message: missing data or id''
                         (emit (Log Error ''Invalid action message: missing data or id'') w)))"
proof -
  have nn: "msg \<noteq> JNull"
    using assms by auto
  show ?thesis
    using zero_tabs [OF _ nn, of d i w pm delivers] invalid_action [OF _ nn, of pm tabsQuery delivers w]
    by (simp add: valid_action_iff)
qed

theorem action_without_tabs_witness:
  "field ''command'' action_42 = Some (JStr ''action'')
   \<and> field ''data'' action_42 = Some (JObj [(''id'', JStr ''42''), (''name'', JStr ''submit_answer'')])
   \<and> field ''id'' (JObj [(''id'', JStr ''42''), (''name'', JStr ''submit_answer'')]) = Some (JStr ''42'')
   \<and> truthy (JStr ''42'')
   \<and> filter is_ws_send
       (emitted connected_world
          (snd (handleAction True action_42 (Inr []) (\<lambda>_. True) connected_world))) =
       [WsSend 0 (action_result (JStr ''42'') ''No Duolingo tab is currently open.'')]
   \<and> field ''command'' action_no_id = Some (JStr ''action'')
   \<and> valid_action action_no_id = None
   \<and> filter is_ws_send
       (emitted connected_world
          (snd (handleAction True action_no_id (Inr []) (\<lambda>_. True) connected_world))) = []"
proof -
  have c: "field ''command'' action_42 = Some (JStr ''action'')"
    by (simp add: action_42_def)
  have d: "field ''data'' action_42 =
      Some (JObj [(''id'', JStr ''42''), (''name'', JStr ''submit_answer'')])"
    by (simp add: action_42_def)
  have i: "field ''id'' (JObj [(''id'', JStr ''42''), (''name'', JStr ''submit_answer'')]) =
      Some (JStr ''42'')"
    by simp
  have cs: "can_send connected_world" "ws connected_world = Some 0"
    by code_simp+
  have c': "field ''command'' action_no_id = Some (JStr ''action'')"
    by (simp add: action_no_id_def)
  have v': "valid_action action_no_id = None"
    by (simp add: action_no_id_def valid_action_def)
  have a: "filter is_ws_send
       (emitted connected_world
          (snd (handleAction True action_42 (Inr []) (\<lambda>_. True) connected_world))) =
       [WsSend 0 (action_result (JStr ''42'') ''No Duolingo tab is currently open.'')]"
    using action_without_tabs [OF c, where w = connected_world and pm = True
        and delivers = "\<lambda>_. True" and i = "JStr ''42''"
        and d = "JObj [(''id'', JStr ''42''), (''name'', JStr ''submit_answer'')]"] d i cs
    by simp
  have b: "filter is_ws_send
       (emitted connected_world
          (snd (handleAction True action_no_id (Inr []) (\<lambda>_. True) connected_world))) = []"
    using action_without_tabs [OF c', where w = connected_world and pm = True
        and tabsQuery = "Inr []" and delivers = "\<lambda>_. True"] v'
    by (simp add: emitted_def popup_log_def)
  from c d i a c' v' b show ?thesis by simp
qed

text \<open>
  Stated for every request that carries an id, the property fails twice: a request
  whose id is the empty string carries an id and gets no result at all, and a request with id "42" gets no result written when the
  socket has closed by the time the tabs have been looked up.
\<close>

theorem action_result_counterexample:
  "field ''command'' action_empty_id = Some (JStr ''action'')
   \<and> field ''data'' action_empty_id =
       Some (JObj [(''id'', JStr []), (''name'', JStr ''submit_answer'')])
   \<and> field ''id'' (JObj [(''id'', JStr []), (''name'', JStr ''submit_answer'')]) = Some (JStr [])
   \<and> can_send connected_world
   \<and> filter is_ws_send
       (emitted connected_world
          (snd (handleAction True action_empty_id (Inr []) (\<lambda>_. True) connected_world))) = []
   \<and> valid_action action_42 =
       Some (JObj [(''id'', JStr ''42''), (''name'', JStr ''submit_answer'')], JStr ''42'')
   \<and> filter is_ws_send
       (emitted dropped_world
          (snd (handleAction True action_42 (Inr []) (\<lambda>_. True) dropped_world))) = []"
  by code_simp

section \<open>Properties of the codec\<close>

lemma digit_char_facts:
  assumes "0 \<le> d" "d < 10"
  shows "is_digit (digit_char d)" "digit_val (digit_char d) = d"
    "(digit_char d = CHR ''0'') = (d = 0)"
proof -
  have v: "(of_char (digit_char d) :: int) = 48 + d"
    using assms by (simp add: digit_char_def)
  show "is_digit (digit_char d)" "digit_val (digit_char d) = d"
    using assms by (simp_all add: is_digit_def digit_val_def v)
  have "(of_char (digit_char d) :: int) = of_char (CHR ''0'') \<longleftrightarrow> d = 0"
    by (simp add: v)
  then show "(digit_char d = CHR ''0'') = (d = 0)"
    by (metis v add.right_neutral of_char_eq_iff)
qed

lemma digits_value_snoc: "digits_value (ds @ [c]) = 10 * digits_value ds + digit_val c"
  by (simp add: digits_value_def)

lemma int_digits_zero: "int_digits 0 = ''0''"
  using digit_char_facts(3) [of 0] by (simp add: int_digits.simps)

lemma int_digits_props:
  "0 \<le> n \<Longrightarrow>
   list_all is_digit (int_digits n) \<and> int_digits n \<noteq> [] \<and> digits_value (int_digits n) = n
   \<and> (hd (int_digits n) = CHR ''0'') = (n = 0)"
proof (induction n rule: int_digits.induct)
  case (1 n)
  show ?case
  proof (cases "n < 10")
    case True
    then have "int_digits n = [digit_char n]"
      by (simp add: int_digits.simps)
    then show ?thesis
      using digit_char_facts [of n] True "1.prems"
      by (simp add: digits_value_def)
  next
    case False
    then have eq: "int_digits n = int_digits (n div 10) @ [digit_char (n mod 10)]"
      by (subst int_digits.simps) simp
    have ih: "list_all is_digit (int_digits (n div 10))" "int_digits (n div 10) \<noteq> []"
      "digits_value (int_digits (n div 10)) = n div 10"
      "(hd (int_digits (n div 10)) = CHR ''0'') = (n div 10 = 0)"
      using "1.IH" False "1.prems" by simp_all
    have "n div 10 \<noteq> 0" using False by simp
    then show ?thesis
      using ih digit_char_facts [of "n mod 10"] False
      by (simp add: eq digits_value_snoc)
  qed
qed

lemma delimited_facts:
  "delimited rest \<Longrightarrow>
   takeWhile is_digit rest = [] \<and>
   (case rest of [] \<Rightarrow> False | c # _ \<Rightarrow> c = CHR ''.'' \<or> c = CHR ''e'' \<or> c = CHR ''E'') = False"
  by (cases rest) (auto simp: delimited_def is_digit_def)

lemma takeWhile_digits:
  "list_all is_digit xs \<Longrightarrow> delimited rest \<Longrightarrow> takeWhile is_digit (xs @ rest) = xs"
  by (induction xs) (simp_all add: delimited_facts)

lemma parse_unsigned_digits:
  assumes "0 \<le> n" "n \<le> MAX_SAFE" "delimited rest"
  shows "parse_unsigned (int_digits n @ rest) = Parsed (n, rest)"
proof (cases "n = 0")
  case True
  show ?thesis
    using delimited_facts [OF assms(3)]
    by (simp add: True int_digits_zero parse_unsigned_def is_digit_def digits_value_def
        digit_val_def MAX_SAFE_def)
next
  case False
  obtain d ds where ds: "int_digits n = d # ds"
    using int_digits_props [OF assms(1)] by (cases "int_digits n") auto
  have p: "list_all is_digit (d # ds)" "digits_value (d # ds) = n" "d \<noteq> CHR ''0''"
    using int_digits_props [OF assms(1)] False by (simp_all add: ds)
  have tw: "takeWhile is_digit (d # ds @ rest) = d # ds"
    using takeWhile_digits [OF p(1) assms(3)] by simp
  have d: "is_digit d" using p(1) by simp
  show ?thesis
    unfolding ds parse_unsigned_def
    using delimited_facts [OF assms(3)] d p(2,3) assms(2)
    by (simp add: tw Let_def del: takeWhile.simps)
qed

lemma int_digits_not_minus: "0 \<le> n \<Longrightarrow> hd (int_digits n) \<noteq> CHR ''-''"
proof -
  assume "0 \<le> n"
  then have "list_all is_digit (int_digits n)" "int_digits n \<noteq> []"
    using int_digits_props by simp_all
  then have "is_digit (hd (int_digits n))"
    by (cases "int_digits n") simp_all
  then show ?thesis
    by (auto simp: is_digit_def)
qed

lemma parse_number_pos:
  assumes "0 \<le> n" "n \<le> MAX_SAFE" "delimited rest"
  shows "parse_number (int_digits n @ rest) = Parsed (JNum (of_int n), rest)"
proof -
  obtain d ds where ds: "int_digits n = d # ds"
    using int_digits_props [OF assms(1)] by (cases "int_digits n") auto
  have dm: "d \<noteq> CHR ''-''"
    using int_digits_not_minus [OF assms(1)] by (simp add: ds)
  have "parse_unsigned (d # ds @ rest) = Parsed (n, rest)"
    using parse_unsigned_digits [OF assms] by (simp add: ds)
  then show ?thesis
    using dm by (simp add: parse_number_def ds)
qed

lemma parse_number_neg:
  assumes "0 \<le> n" "n \<le> MAX_SAFE" "delimited rest"
  shows "parse_number (CHR ''-'' # int_digits n @ rest) = Parsed (JNum (- of_int n), rest)"
  using parse_unsigned_digits [OF assms] by (simp add: parse_number_def)

lemma parse_number_render:
  assumes "js_value (JNum q)" "delimited rest"
  shows "parse_number (render (JNum q) @ rest) = Parsed (JNum q, rest)"
proof -
  obtain i where q: "q = of_int i"
    using assms(1) by (metis js_value.simps(3))
  have i: "\<bar>i\<bar> \<le> MAX_SAFE"
    using assms(1) by (simp add: q)
  show ?thesis
  proof (cases "i < 0")
    case True
    have "parse_number (CHR ''-'' # int_digits (- i) @ rest) =
          Parsed (JNum (- of_int (- i)), rest)"
      using True i assms(2) by (intro parse_number_neg) simp_all
    then show ?thesis
      using True by (simp add: q)
  next
    case False
    have "parse_number (int_digits i @ rest) = Parsed (JNum (of_int i), rest)"
      using False i assms(2) by (intro parse_number_pos) simp_all
    then show ?thesis
      using False by (simp add: q)
  qed
qed

lemma hex_low:
  assumes "0 \<le> n" "n < 32"
  shows "hex4 [CHR ''0'', CHR ''0'', hex_digit (n div 16), hex_digit (n mod 16)] = Some n"
proof -
  have h: "hex_val (hex_digit d) = Some d" if "0 \<le> d" "d < 16" for d
    using that by (simp add: hex_val_def hex_digit_def Let_def)
  have "0 \<le> n div 16" "n div 16 < 16" "0 \<le> n mod 16" "n mod 16 < 16"
    using assms by simp_all
  then show ?thesis
    by (simp add: hex4_def h) (simp add: hex_val_def)
qed

lemma parse_escape_char:
  "parse_chars (escape_char c @ t) = prepend [c] (parse_chars t)"
proof -
  consider (q) "c = dquote" | (b) "c = backslash"
    | (s) "c \<in> {CHR 0x08, CHR 0x09, CHR 0x0A, CHR 0x0C, CHR 0x0D}"
    | (u) "c \<notin> {CHR 0x08, CHR 0x09, CHR 0x0A, CHR 0x0C, CHR 0x0D}" "(of_char c :: int) < 32"
    | (v) "c \<noteq> dquote" "c \<noteq> backslash" "\<not> (of_char c :: int) < 32"
    by auto
  then show ?thesis
  proof cases
    case q
    then show ?thesis
      by (simp add: escape_char_def unescape_def) (simp add: dquote_def backslash_def)
  next
    case b
    then show ?thesis
      by (simp add: escape_char_def unescape_def) (simp add: dquote_def backslash_def)
  next
    case s
    then consider "c = CHR 0x08" | "c = CHR 0x09" | "c = CHR 0x0A" | "c = CHR 0x0C"
      | "c = CHR 0x0D"
      by auto
    then show ?thesis
      by cases (simp_all add: escape_char_def unescape_def dquote_def backslash_def)
  next
    case u
    have n: "0 \<le> (of_char c :: int)" by (simp add: of_char_def)
    have ne: "c \<noteq> dquote" "c \<noteq> backslash"
      using u(2) by (auto simp: dquote_def backslash_def)
    have e: "escape_char c =
        [backslash, CHR ''u'', CHR ''0'', CHR ''0'',
         hex_digit (of_char c div 16), hex_digit (of_char c mod 16)]"
      using u ne by (simp add: escape_char_def)
    show ?thesis
      using hex_low [OF n u(2)] u(2)
      by (simp add: e utf8_def) (simp add: dquote_def backslash_def)
  next
    case v
    then have "escape_char c = [c]"
      by (auto simp: escape_char_def)
    then show ?thesis using v by simp
  qed
qed

lemma parse_chars_quote:
  "parse_chars (concat (map escape_char s) @ dquote # rest) = Parsed (s, rest)"
  by (induction s) (simp_all add: parse_escape_char del: parse_chars.simps, simp)


lemma object_order_prefix: "object_order (xs @ ys) \<Longrightarrow> object_order xs"
  by (induction xs rule: object_order.induct) simp_all

lemma object_order_head:
  "object_order (k1 # ks @ [k]) \<Longrightarrow> index_of k = Some n \<Longrightarrow>
   \<exists>m. index_of k1 = Some m \<and> m < n"
proof (induction ks arbitrary: k1)
  case Nil
  then show ?case by (simp split: option.splits)
next
  case (Cons k2 ks)
  then obtain m2 where "index_of k2 = Some m2" "m2 < n"
    by fastforce
  then show ?case
    using Cons.prems(1) by (auto split: option.splits)
qed

lemma insert_index_append:
  "index_of k = Some n \<Longrightarrow> object_order (map fst acc @ [k]) \<Longrightarrow>
   insert_index n (k, v) acc = acc @ [(k, v)]"
proof (induction acc)
  case Nil
  then show ?case by simp
next
  case (Cons p ps)
  obtain m where m: "index_of (fst p) = Some m" "m < n"
    using object_order_head [of "fst p" "map fst ps" k n] Cons.prems by auto
  have "object_order (map fst ps @ [k])"
    using Cons.prems(2) by (cases "map fst ps @ [k]") simp_all
  then show ?case
    using Cons.IH Cons.prems(1) m by simp
qed

lemma foldl_add_prop:
  "distinct (map fst (acc @ kvs)) \<Longrightarrow> object_order (map fst (acc @ kvs)) \<Longrightarrow>
   foldl add_prop acc kvs = acc @ kvs"
proof (induction kvs arbitrary: acc)
  case Nil
  then show ?case by simp
next
  case (Cons kv kvs)
  obtain k v where kv: "kv = (k, v)" by (cases kv)
  have fresh: "k \<notin> fst ` set acc"
    using Cons.prems(1) by (auto simp: kv)
  have "object_order ((map fst acc @ [k]) @ map fst kvs)"
    using Cons.prems(2) by (simp add: kv)
  then have "object_order (map fst acc @ [k])"
    by (rule object_order_prefix)
  then have "add_prop acc kv = acc @ [kv]"
    using fresh insert_index_append [of k _ acc v]
    by (cases "index_of k") (simp_all add: kv)
  then show ?case
    using Cons.IH [of "acc @ [kv]"] Cons.prems by simp
qed

lemma make_object_js:
  "distinct (map fst kvs) \<Longrightarrow> object_order (map fst kvs) \<Longrightarrow> make_object kvs = JObj kvs"
  using foldl_add_prop [of "[]" kvs] by (simp add: make_object_def)

lemma commas_Cons: "ts \<noteq> [] \<Longrightarrow> commas (t # ts) = t @ CHR '','' # commas ts"
  by (cases ts) simp_all

lemma digit_not_special:
  "is_digit c \<Longrightarrow>
   \<not> is_ws c \<and> c \<noteq> CHR '']'' \<and> c \<noteq> CHR ''}'' \<and> c \<noteq> CHR ''n'' \<and> c \<noteq> CHR ''t''
   \<and> c \<noteq> CHR ''f'' \<and> c \<noteq> dquote \<and> c \<noteq> CHR ''['' \<and> c \<noteq> CHR ''{''"
  by (auto simp: is_digit_def is_ws_def dquote_def)

lemma opens_value_facts:
  "opens_value c \<Longrightarrow> \<not> is_ws c \<and> c \<noteq> CHR '']'' \<and> c \<noteq> CHR ''}''"
  unfolding opens_value_def
  using digit_not_special [of c] by (auto simp: is_ws_def dquote_def)

lemma render_number_opens:
  "js_value (JNum q) \<Longrightarrow>
   \<exists>c cs. render (JNum q) = c # cs \<and> (c = CHR ''-'' \<or> is_digit c)"
proof -
  assume "js_value (JNum q)"
  have n: "0 \<le> \<bar>\<lfloor>q\<rfloor>\<bar>" by simp
  obtain d ds where ds: "int_digits \<bar>\<lfloor>q\<rfloor>\<bar> = d # ds"
    using int_digits_props [OF n] by (cases "int_digits \<bar>\<lfloor>q\<rfloor>\<bar>") auto
  have "is_digit d"
    using int_digits_props [OF n] by (simp add: ds)
  then show ?thesis
    by (simp add: ds)
qed

lemma render_opens: "js_value v \<Longrightarrow> \<exists>c cs. render v = c # cs \<and> opens_value c"
proof (cases v)
  case (JNum q)
  assume "js_value v"
  then show ?thesis
    using render_number_opens [of q] JNum by (auto simp: opens_value_def)
qed (simp_all add: opens_value_def quote_def)

lemma parse_value_number:
  "c = CHR ''-'' \<or> is_digit c \<Longrightarrow> parse_value (Suc n) (c # r) = parse_number (c # r)"
proof (cases "is_digit c")
  case True
  then show ?thesis
    using digit_not_special [of c] by simp
next
  case False
  assume "c = CHR ''-'' \<or> is_digit c"
  then have "c = CHR ''-''" using False by simp
  then show ?thesis
    by (simp add: is_ws_def dquote_def)
qed

lemma delimited_simps [simp]:
  "delimited []" "delimited (CHR '','' # r)" "delimited (CHR '']'' # r)"
  "delimited (CHR ''}'' # r)"
  by (simp_all add: delimited_def)

lemma parse_elements_render:
  assumes "vs \<noteq> []"
    and "\<And>v n rest. v \<in> set vs \<Longrightarrow> 2 * length (render v) \<le> n \<Longrightarrow> delimited rest \<Longrightarrow>
           parse_value n (render v @ rest) = Parsed (v, rest)"
    and "2 * length (commas (map render vs)) + 1 \<le> m"
  shows "parse_elements m (commas (map render vs) @ CHR '']'' # rest) = Parsed (vs, rest)"
  using assms
proof (induction vs arbitrary: m rule: list_nonempty_induct)
  case (single v)
  obtain m' where m: "m = Suc m'" using single.prems(2) by (cases m) simp_all
  have "parse_value m' (render v @ CHR '']'' # rest) = Parsed (v, CHR '']'' # rest)"
    using single.prems by (intro single.prems(1)) (simp_all add: m)
  then show ?case
    by (simp add: m is_ws_def)
next
  case (cons v vs)
  obtain m' where m: "m = Suc m'" using cons.prems(2) by (cases m) simp_all
  let ?tail = "commas (map render vs) @ CHR '']'' # rest"
  have len: "length (commas (render v # map render vs)) =
      length (render v) + 1 + length (commas (map render vs))"
    using cons.hyps by (simp add: commas_Cons)
  have a: "parse_value m' (render v @ CHR '','' # ?tail) = Parsed (v, CHR '','' # ?tail)"
    using cons.prems(2) by (intro cons.prems(1)) (simp_all add: m len)
  have b: "parse_elements m' ?tail = Parsed (vs, rest)"
  proof (rule cons.IH)
    show "\<And>v n rest. v \<in> set vs \<Longrightarrow> 2 * length (render v) \<le> n \<Longrightarrow> delimited rest \<Longrightarrow>
        parse_value n (render v @ rest) = Parsed (v, rest)"
      using cons.prems(1) by (meson list.set_intros(2))
    show "2 * length (commas (map render vs)) + 1 \<le> m'"
      using cons.prems(2) by (simp add: m len)
  qed
  show ?case
    using cons.hyps by (simp add: m commas_Cons a b is_ws_def)
qed

lemma parse_member_last:
  assumes "parse_value m' (t @ CHR ''}'' # rest) = Parsed (v, CHR ''}'' # rest)"
  shows "parse_members (Suc m') (quote k @ CHR '':'' # t @ CHR ''}'' # rest) =
         Parsed ([(k, v)], rest)"
proof -
  have "parse_chars (concat (map escape_char k) @ dquote # CHR '':'' # t @ CHR ''}'' # rest) =
        Parsed (k, CHR '':'' # t @ CHR ''}'' # rest)"
    by (rule parse_chars_quote)
  then show ?thesis
    using assms by (simp add: quote_def is_ws_def) (simp add: dquote_def)
qed

lemma parse_member_more:
  assumes "parse_value m' (t @ CHR '','' # tail) = Parsed (v, CHR '','' # tail)"
    and "parse_members m' tail = Parsed (kvs, rest)"
  shows "parse_members (Suc m') (quote k @ CHR '':'' # t @ CHR '','' # tail) =
         Parsed ((k, v) # kvs, rest)"
proof -
  have "parse_chars (concat (map escape_char k) @ dquote # CHR '':'' # t @ CHR '','' # tail) =
        Parsed (k, CHR '':'' # t @ CHR '','' # tail)"
    by (rule parse_chars_quote)
  then show ?thesis
    using assms by (simp add: quote_def is_ws_def) (simp add: dquote_def)
qed

lemma parse_members_render:
  assumes "kvs \<noteq> []"
    and "\<And>k v n rest. (k, v) \<in> set kvs \<Longrightarrow> 2 * length (render v) \<le> n \<Longrightarrow> delimited rest \<Longrightarrow>
           parse_value n (render v @ rest) = Parsed (v, rest)"
    and "2 * length (commas (map (\<lambda>(k, v). quote k @ CHR '':'' # render v) kvs)) + 1 \<le> m"
  shows "parse_members m
           (commas (map (\<lambda>(k, v). quote k @ CHR '':'' # render v) kvs) @ CHR ''}'' # rest) =
         Parsed (kvs, rest)"
  using assms
proof (induction kvs arbitrary: m rule: list_nonempty_induct)
  case (single kv)
  obtain k v where kv: "kv = (k, v)" by (cases kv)
  obtain m' where m: "m = Suc m'" using single.prems(2) by (cases m) simp_all
  have "parse_value m' (render v @ CHR ''}'' # rest) = Parsed (v, CHR ''}'' # rest)"
    using single.prems(2) by (intro single.prems(1) [of k]) (simp_all add: m kv quote_def)
  then show ?case
    using parse_member_last [of m' "render v" rest v k] by (simp add: m kv)
next
  case (cons kv kvs)
  obtain k v where kv: "kv = (k, v)" by (cases kv)
  obtain m' where m: "m = Suc m'" using cons.prems(2) by (cases m) simp_all
  let ?f = "\<lambda>(k, v). quote k @ CHR '':'' # render v"
  let ?tail = "commas (map ?f kvs) @ CHR ''}'' # rest"
  have len: "length (commas ((quote k @ CHR '':'' # render v) # map ?f kvs)) =
      length (quote k) + 1 + length (render v) + 1 + length (commas (map ?f kvs))"
    using cons.hyps by (simp add: commas_Cons)
  have a: "parse_value m' (render v @ CHR '','' # ?tail) = Parsed (v, CHR '','' # ?tail)"
    using cons.prems(2) by (intro cons.prems(1) [of k]) (simp_all add: m len kv)
  have b: "parse_members m' ?tail = Parsed (kvs, rest)"
  proof (rule cons.IH)
    show "\<And>k v n rest. (k, v) \<in> set kvs \<Longrightarrow> 2 * length (render v) \<le> n \<Longrightarrow>
        delimited rest \<Longrightarrow> parse_value n (render v @ rest) = Parsed (v, rest)"
      using cons.prems(1) by (meson list.set_intros(2))
    show "2 * length (commas (map ?f kvs)) + 1 \<le> m'"
      using cons.prems(2) by (simp add: m kv len)
  qed
  show ?case
    using cons.hyps parse_member_more [OF a b] by (simp add: m kv commas_Cons)
qed

lemma parse_value_render:
  "js_value v \<Longrightarrow> 2 * length (render v) \<le> n \<Longrightarrow> delimited rest \<Longrightarrow>
   parse_value n (render v @ rest) = Parsed (v, rest)"
proof (induction v arbitrary: n rest)
  case JNull
  then obtain n' where "n = Suc n'" by (cases n) simp_all
  then show ?case by (simp add: is_ws_def literal_def)
next
  case (JBool b)
  then obtain n' where "n = Suc n'" by (cases n) (simp_all split: if_splits)
  then show ?case by (simp add: is_ws_def literal_def)
next
  case (JNum q)
  obtain c cs where c: "render (JNum q) = c # cs" "c = CHR ''-'' \<or> is_digit c"
    using render_number_opens [OF JNum.prems(1)] by auto
  then obtain n' where n: "n = Suc n'" using JNum.prems(2) by (cases n) simp_all
  have "parse_value (Suc n') (c # cs @ rest) = parse_number (c # cs @ rest)"
    using c(2) by (rule parse_value_number)
  also have "\<dots> = parse_number (render (JNum q) @ rest)"
    by (simp only: c(1) append_Cons)
  also have "\<dots> = Parsed (JNum q, rest)"
    using JNum.prems(1,3) by (rule parse_number_render)
  finally show ?case
    by (simp only: n c(1) append_Cons)
next
  case (JStr s)
  then obtain n' where "n = Suc n'" by (cases n) (simp_all add: quote_def)
  then show ?case
    by (simp add: is_ws_def quote_def parse_chars_quote)
       (simp add: dquote_def)
next
  case (JArr vs)
  then obtain n' where n: "n = Suc n'" by (cases n) simp_all
  show ?case
  proof (cases vs)
    case Nil
    then show ?thesis by (simp add: n is_ws_def dquote_def)
  next
    case (Cons v vs')
    then have ne: "vs \<noteq> []" by simp
    obtain c cs where c: "render v = c # cs" "opens_value c"
      using render_opens [of v] JArr.prems(1) Cons by auto
    then obtain cs' where first: "commas (map render vs) @ CHR '']'' # rest = c # cs'"
      using Cons by (cases vs') simp_all
    have els: "parse_elements n' (commas (map render vs) @ CHR '']'' # rest) = Parsed (vs, rest)"
    proof (rule parse_elements_render [OF ne])
      fix v n rest assume "v \<in> set vs" "2 * length (render v) \<le> n" "delimited rest"
      then show "parse_value n (render v @ rest) = Parsed (v, rest)"
        using JArr.IH JArr.prems(1) by (simp add: list_all_iff)
    next
      show "2 * length (commas (map render vs)) + 1 \<le> n'"
        using JArr.prems(2) by (simp add: n)
    qed
    have "parse_value (Suc n') (CHR ''['' # c # cs') = Parsed (JArr vs, rest)"
      using opens_value_facts [OF c(2)] els
      by (simp add: first is_ws_def dquote_def)
    then show ?thesis
      by (simp add: n first del: parse_value.simps)
  qed
next
  case (JObj kvs)
  then obtain n' where n: "n = Suc n'" by (cases n) simp_all
  let ?f = "\<lambda>(k, v). quote k @ CHR '':'' # render v"
  show ?case
  proof (cases kvs)
    case Nil
    then show ?thesis by (simp add: n is_ws_def dquote_def)
  next
    case (Cons kv kvs')
    then have ne: "kvs \<noteq> []" by simp
    obtain cs' where first: "commas (map ?f kvs) @ CHR ''}'' # rest = dquote # cs'"
      using Cons by (cases kv; cases kvs') (simp_all add: quote_def)
    have pl: "list_all (\<lambda>(k, v). js_value v) kvs" "distinct (map fst kvs)"
      "object_order (map fst kvs)"
      using JObj.prems(1) by simp_all
    have mem: "parse_members n' (commas (map ?f kvs) @ CHR ''}'' # rest) = Parsed (kvs, rest)"
    proof (rule parse_members_render [OF ne])
      fix k v n rest assume "(k, v) \<in> set kvs" "2 * length (render v) \<le> n" "delimited rest"
      moreover from this pl(1) have "js_value v" by (auto simp: list_all_iff)
      ultimately show "parse_value n (render v @ rest) = Parsed (v, rest)"
        using JObj.IH [of "(k, v)" v] by simp
    next
      show "2 * length (commas (map ?f kvs)) + 1 \<le> n'"
        using JObj.prems(2) by (simp add: n)
    qed
    have "parse_value (Suc n') (CHR ''{'' # dquote # cs') = Parsed (JObj kvs, rest)"
      using mem make_object_js [OF pl(2,3)]
      by (simp add: first is_ws_def) (simp add: dquote_def)
    then show ?thesis
      by (simp add: n first del: parse_value.simps)
  qed
qed

text \<open>
  C9, as the platform has it. Every value that stands for a JavaScript value can be
  encoded, and decoding its text gives the value back; and a text comes back unchanged
  from decoding and encoding exactly when it is the text that \<open>encode\<close> gives for some
  value.
\<close>

theorem codec_round_trip:
  "(js_value v \<longrightarrow> encode v = Some (render v) \<and> decode (render v) = Parsed v)
   \<and> (recode x = Some x) = (\<exists>u. encode u = Some x)"
proof -
  have rt: "decode (render u) = Parsed u" if "js_value u" for u
  proof -
    have "parse_value (2 * length (render u) + 1) (render u @ []) = Parsed (u, [])"
      using that by (rule parse_value_render) simp_all
    then show ?thesis
      by (simp add: decode_def)
  qed
  have a: "recode x = Some x" if "encode u = Some x" for u
  proof -
    from that have "js_value u" "x = render u"
      by (simp_all add: encode_def split: if_splits)
    with rt [of u] that show ?thesis
      by (simp add: recode_def)
  qed
  have b: "\<exists>u. encode u = Some x" if "recode x = Some x"
    using that by (auto simp: recode_def split: parsed.splits)
  have c: "js_value v \<longrightarrow> encode v = Some (render v) \<and> decode (render v) = Parsed v"
    by (simp add: encode_def rt)
  have d: "(recode x = Some x) = (\<exists>u. encode u = Some x)"
    using a b by blast
  from c d show ?thesis ..
qed

theorem codec_round_trip_witness:
  "js_value context_frame
   \<and> encode context_frame = Some (render context_frame)
   \<and> decode (render context_frame) = Parsed context_frame
   \<and> recode (render context_frame) = Some (render context_frame)
   \<and> render (JStr [CHR ''a'', CHR 0x0A, dquote, CHR 0x01]) =
       [dquote, CHR ''a'', backslash, CHR ''n'', backslash, dquote,
        backslash, CHR ''u'', CHR ''0'', CHR ''0'', CHR ''0'', CHR ''1'', dquote]
   \<and> render (JArr [JNum 42, JNum (- 7), JNull]) = ''[42,-7,null]''"
proof -
  have j: "js_value context_frame"
    by code_simp
  have r: "render (JStr [CHR ''a'', CHR 0x0A, dquote, CHR 0x01]) =
       [dquote, CHR ''a'', backslash, CHR ''n'', backslash, dquote,
        backslash, CHR ''u'', CHR ''0'', CHR ''0'', CHR ''0'', CHR ''1'', dquote]"
    by code_simp
  have n: "render (JArr [JNum 42, JNum (- 7), JNull]) = ''[42,-7,null]''"
    by code_simp
  have e: "encode context_frame = Some (render context_frame)"
    "decode (render context_frame) = Parsed context_frame"
    using codec_round_trip [of context_frame "render context_frame"] j by simp_all
  have "recode (render context_frame) = Some (render context_frame)"
    using codec_round_trip [of context_frame "render context_frame"] e(1) by blast
  with j e r n show ?thesis by simp
qed

text \<open>
  Two well-formed texts of the status frame that do not come back unchanged: one with a
  space after the colon, one without whitespace that gives the key twice. Both decode to
  the frame, whose encoding is the compact text.
\<close>

theorem codec_round_trip_counterexample:
  "decode spaced_status = Parsed status_frame
   \<and> recode spaced_status = Some compact_status
   \<and> compact_status \<noteq> spaced_status
   \<and> decode repeated_key_status = Parsed status_frame
   \<and> recode repeated_key_status = Some compact_status
   \<and> compact_status \<noteq> repeated_key_status"
  by code_simp

section \<open>Properties of the log cache\<close>

lemma slice_from_zero [simp]: "slice_from 0 xs = xs"
  by (simp add: slice_from_def)

lemma slice_from_neg:
  "0 < n \<Longrightarrow> slice_from (- int n) xs = drop (length xs - n) xs"
  by (auto simp: slice_from_def Let_def max_def nat_diff_distrib')

lemma logCache_addLogEntry:
  "0 < maxCacheSize pm \<Longrightarrow>
   logCache (snd (addLogEntry ts ld pm)) =
     drop (Suc (length (logCache pm)) - maxCacheSize pm) (logCache pm @ [mk_log_entry ts ld])"
  by (simp add: addLogEntry_def Let_def slice_from_neg)

lemma maxCacheSize_addLogEntry [simp]:
  "maxCacheSize (snd (addLogEntry ts ld pm)) = maxCacheSize pm"
  by (simp add: addLogEntry_def Let_def)

lemma maxCacheSize_addLogEntries [simp]:
  "maxCacheSize (addLogEntries es pm) = maxCacheSize pm"
  by (induction es pm rule: addLogEntries.induct) simp_all

lemma addLogEntries_snoc:
  "addLogEntries (es @ [(ts, ld)]) pm = snd (addLogEntry ts ld (addLogEntries es pm))"
  by (induction es pm rule: addLogEntries.induct) simp_all

lemma drop_snoc_suffix:
  "drop (Suc (length (drop (length c - m) c)) - m) (drop (length c - m) c @ [x]) =
   drop (Suc (length c) - m) (c @ [x])"
  by (cases "length c < m") (simp_all add: Suc_diff_le)

lemma logCache_addLogEntries:
  "0 < maxCacheSize pm \<Longrightarrow> length (logCache pm) \<le> maxCacheSize pm \<Longrightarrow>
   logCache (addLogEntries es pm) =
     drop (length (logCache pm) + length es - maxCacheSize pm)
       (logCache pm @ map (\<lambda>(ts, ld). mk_log_entry ts ld) es)"
proof (induction es rule: rev_induct)
  case Nil
  then show ?case by simp
next
  case (snoc e es)
  obtain ts ld where e: "e = (ts, ld)" by (cases e)
  let ?m = "maxCacheSize pm"
  let ?c = "logCache pm @ map (\<lambda>(ts, ld). mk_log_entry ts ld) es"
  have ih: "logCache (addLogEntries es pm) = drop (length ?c - ?m) ?c"
    using snoc by simp
  have "logCache (addLogEntries (es @ [e]) pm) =
        drop (Suc (length (drop (length ?c - ?m) ?c)) - ?m)
          (drop (length ?c - ?m) ?c @ [mk_log_entry ts ld])"
    using snoc.prems by (simp only: e addLogEntries_snoc logCache_addLogEntry
        maxCacheSize_addLogEntries ih)
  also have "\<dots> = drop (Suc (length ?c) - ?m) (?c @ [mk_log_entry ts ld])"
    by (rule drop_snoc_suffix)
  finally show ?case by (simp add: e)
qed

text \<open>
  C10. After every \<^verbatim>\<open>addLogEntry\<close> call, from whatever cache it starts, the cache holds at
  most \<^verbatim>\<open>maxCacheSize\<close> = 200 entries; and after any run of calls on a fresh manager the
  cache is the run's entries with all but the last 200 dropped, in insertion order.
\<close>

theorem log_cache_bounded:
  "length (logCache (snd (addLogEntry ts ld (pm\<lparr>maxCacheSize := 200\<rparr>)))) \<le> 200
   \<and> maxCacheSize new_popup_manager = 200
   \<and> logCache (addLogEntries es new_popup_manager) =
       drop (length es - 200) (map (\<lambda>(ts, ld). mk_log_entry ts ld) es)"
proof -
  have a: "length (logCache (snd (addLogEntry ts ld (pm\<lparr>maxCacheSize := 200\<rparr>)))) \<le> 200"
    by (simp add: logCache_addLogEntry)
  have b: "maxCacheSize new_popup_manager = 200"
    by (simp add: new_popup_manager_def)
  have c: "logCache (addLogEntries es new_popup_manager) =
       drop (length es - 200) (map (\<lambda>(ts, ld). mk_log_entry ts ld) es)"
    using logCache_addLogEntries [of new_popup_manager es]
    by (simp add: new_popup_manager_def Let_def)
  from a b c show ?thesis by blast
qed

end
